theory Spec2Isabelle
  imports Main "HOL-Library.Char_ord" "HOL-Library.List_Lexorder" "HOL-Library.Sublist"
begin

section \<open>Record model (notebook/models.py)\<close>

text \<open>
  The three enumerations.  \<open>X_value\<close> is the member's \<open>.value\<close>; \<open>X_of s\<close> is the
  constructor call \<open>X(s)\<close>, a reverse lookup over the members in declaration order,
  where \<open>None\<close> stands for the \<open>ValueError\<close> the call raises on an unknown value.
\<close>

datatype NoteStatus = ACTIVE | ARCHIVED

datatype NotePriority = LOW | MEDIUM | HIGH

datatype NoteCategory = WORK | PERSONAL | STUDY | SHOPPING | IDEAS | OTHER

fun NoteStatus_value :: "NoteStatus \<Rightarrow> string" where
  "NoteStatus_value ACTIVE = ''active''"
| "NoteStatus_value ARCHIVED = ''archived''"

fun NotePriority_value :: "NotePriority \<Rightarrow> string" where
  "NotePriority_value LOW = ''low''"
| "NotePriority_value MEDIUM = ''medium''"
| "NotePriority_value HIGH = ''high''"

fun NoteCategory_value :: "NoteCategory \<Rightarrow> string" where
  "NoteCategory_value WORK = ''work''"
| "NoteCategory_value PERSONAL = ''personal''"
| "NoteCategory_value STUDY = ''study''"
| "NoteCategory_value SHOPPING = ''shopping''"
| "NoteCategory_value IDEAS = ''ideas''"
| "NoteCategory_value OTHER = ''other''"

definition NoteStatus_members :: "NoteStatus list" where
  "NoteStatus_members = [ACTIVE, ARCHIVED]"

definition NotePriority_members :: "NotePriority list" where
  "NotePriority_members = [LOW, MEDIUM, HIGH]"

definition NoteCategory_members :: "NoteCategory list" where
  "NoteCategory_members = [WORK, PERSONAL, STUDY, SHOPPING, IDEAS, OTHER]"

definition NoteStatus_of :: "string \<Rightarrow> NoteStatus option" where
  "NoteStatus_of s = find (\<lambda>m. NoteStatus_value m = s) NoteStatus_members"

definition NotePriority_of :: "string \<Rightarrow> NotePriority option" where
  "NotePriority_of s = find (\<lambda>m. NotePriority_value m = s) NotePriority_members"

definition NoteCategory_of :: "string \<Rightarrow> NoteCategory option" where
  "NoteCategory_of s = find (\<lambda>m. NoteCategory_value m = s) NoteCategory_members"

text \<open>
  \<open>str.lower()\<close>.  A \<open>string\<close> is a list of 8-bit characters, so the model lowers the
  ASCII letters and leaves every other byte as it is.
\<close>

definition lower_char :: "char \<Rightarrow> char" where
  "lower_char c =
     (case map_of (zip ''ABCDEFGHIJKLMNOPQRSTUVWXYZ'' ''abcdefghijklmnopqrstuvwxyz'') c of
        None \<Rightarrow> c
      | Some l \<Rightarrow> l)"

definition lower :: "string \<Rightarrow> string" where
  "lower s = map lower_char s"

text \<open>The class \<open>Note\<close>, with the field types its docstring declares.\<close>

record Note =
  note_id :: int
  title :: string
  content :: string
  category :: NoteCategory
  priority :: NotePriority
  tags :: "string list"
  status :: NoteStatus
  created_at :: string
  updated_at :: string

text \<open>
  The structured form of a note: the dict that \<open>to_dict\<close> builds and \<open>from_dict\<close> reads,
  one JSON object of the backing file.  A key is absent (\<open>None\<close>) or holds a value of
  the type \<open>to_dict\<close> writes under it; for the three keys read with \<open>data.get\<close> a JSON
  \<open>null\<close> behaves as an absent key.  Objects holding values of other JSON types are
  outside the model.
\<close>

record note_data =
  d_id :: "int option"
  d_title :: "string option"
  d_content :: "string option"
  d_category :: "string option"
  d_priority :: "string option"
  d_tags :: "string list option"
  d_status :: "string option"
  d_created_at :: "string option"
  d_updated_at :: "string option"

section \<open>The environment: backing file and clock\<close>

text \<open>
  The backing file is absent, holds text that \<open>json.load\<close> rejects with
  \<open>JSONDecodeError\<close>, or holds a JSON array of objects of the form above (any other
  JSON document is outside the model); \<open>json.dump\<close> followed by \<open>json.load\<close> is taken
  to give back the array that was written.

  \<open>datetime.now().isoformat()\<close> is a read of the clock: the \<open>k\<close>-th read of the run
  returns \<open>clock w k\<close>, and \<open>ticks w\<close> counts the reads made so far.
  \<open>fromisoformat_ok\<close> is the set of strings \<open>datetime.fromisoformat\<close> accepts (it
  differs between Python versions); on any other string it raises \<open>ValueError\<close>.
\<close>

datatype file_state = Absent | Undecodable | JSONArray "note_data list"

record world =
  backing_file :: file_state
  clock :: "nat \<Rightarrow> string"
  ticks :: nat
  fromisoformat_ok :: "string \<Rightarrow> bool"

datatype error = KeyError | ValueError | FileNotFoundError

definition now :: "world \<Rightarrow> string \<times> world" where
  "now w = (clock w (ticks w), w\<lparr>ticks := Suc (ticks w)\<rparr>)"

text \<open>\<open>t or datetime.now().isoformat()\<close>: the clock is read only when \<open>t\<close> is falsy.\<close>

definition or_now :: "string option \<Rightarrow> world \<Rightarrow> string \<times> world" where
  "or_now t w =
     (case t of
        None \<Rightarrow> now w
      | Some s \<Rightarrow> if s = [] then now w else (s, w))"

text \<open>\<open>Note.__init__\<close>: \<open>tags or []\<close>, then the two timestamps, in this order.\<close>

definition Note_init ::
  "int \<Rightarrow> string \<Rightarrow> string \<Rightarrow> NoteCategory \<Rightarrow> NotePriority \<Rightarrow> string list option \<Rightarrow>
   NoteStatus \<Rightarrow> string option \<Rightarrow> string option \<Rightarrow> world \<Rightarrow> Note \<times> world" where
  "Note_init i t c cat pri tgs st cr up w =
     (let (cr', w1) = or_now cr w;
          (up', w2) = or_now up w1
      in (\<lparr>note_id = i, title = t, content = c, category = cat, priority = pri,
           tags = (case tgs of None \<Rightarrow> [] | Some ts \<Rightarrow> ts), status = st,
           created_at = cr', updated_at = up'\<rparr>, w2))"

definition to_dict :: "Note \<Rightarrow> note_data" where
  "to_dict n =
     \<lparr>d_id = Some (note_id n), d_title = Some (title n), d_content = Some (content n),
      d_category = Some (NoteCategory_value (category n)),
      d_priority = Some (NotePriority_value (priority n)),
      d_tags = Some (tags n),
      d_status = Some (NoteStatus_value (status n)),
      d_created_at = Some (created_at n), d_updated_at = Some (updated_at n)\<rparr>"

text \<open>
  \<open>Note.from_dict\<close>.  The arguments of \<open>cls(...)\<close> are evaluated left to right, so the
  first key that is missing (\<open>KeyError\<close>) or the first enumeration value that is not
  recognised (\<open>ValueError\<close>) decides the exception; the clock is read only after all of
  them have been evaluated.
\<close>

definition from_dict :: "note_data \<Rightarrow> world \<Rightarrow> (error + Note) \<times> world" where
  "from_dict d w =
     (case d_id d of None \<Rightarrow> (Inl KeyError, w) | Some i \<Rightarrow>
      case d_title d of None \<Rightarrow> (Inl KeyError, w) | Some t \<Rightarrow>
      case d_content d of None \<Rightarrow> (Inl KeyError, w) | Some c \<Rightarrow>
      case d_category d of None \<Rightarrow> (Inl KeyError, w) | Some cs \<Rightarrow>
      case NoteCategory_of cs of None \<Rightarrow> (Inl ValueError, w) | Some cat \<Rightarrow>
      case d_priority d of None \<Rightarrow> (Inl KeyError, w) | Some ps \<Rightarrow>
      case NotePriority_of ps of None \<Rightarrow> (Inl ValueError, w) | Some pri \<Rightarrow>
      case d_status d of None \<Rightarrow> (Inl KeyError, w) | Some ss \<Rightarrow>
      case NoteStatus_of ss of None \<Rightarrow> (Inl ValueError, w) | Some st \<Rightarrow>
        (let (n, w') = Note_init i t c cat pri (d_tags d) st (d_created_at d) (d_updated_at d) w
         in (Inr n, w')))"

text \<open>\<open>Note.update\<close>: only the supplied fields change; \<open>updated_at\<close> is always refreshed.\<close>

definition update ::
  "string option \<Rightarrow> string option \<Rightarrow> NoteCategory option \<Rightarrow> NotePriority option \<Rightarrow>
   string list option \<Rightarrow> Note \<Rightarrow> world \<Rightarrow> Note \<times> world" where
  "update t c cat pri tgs n w =
     (let n1 = (case t of None \<Rightarrow> n | Some v \<Rightarrow> n\<lparr>title := v\<rparr>);
          n2 = (case c of None \<Rightarrow> n1 | Some v \<Rightarrow> n1\<lparr>content := v\<rparr>);
          n3 = (case cat of None \<Rightarrow> n2 | Some v \<Rightarrow> n2\<lparr>category := v\<rparr>);
          n4 = (case pri of None \<Rightarrow> n3 | Some v \<Rightarrow> n3\<lparr>priority := v\<rparr>);
          n5 = (case tgs of None \<Rightarrow> n4 | Some v \<Rightarrow> n4\<lparr>tags := v\<rparr>);
          (t', w') = now w
      in (n5\<lparr>updated_at := t'\<rparr>, w'))"

section \<open>Storage engine (notebook/storage.py)\<close>

definition ensure_file_exists :: "world \<Rightarrow> world" where
  "ensure_file_exists w = (if backing_file w = Absent then w\<lparr>backing_file := JSONArray []\<rparr> else w)"

definition save_notes :: "Note list \<Rightarrow> world \<Rightarrow> world" where
  "save_notes notes w = (ensure_file_exists w)\<lparr>backing_file := JSONArray (map to_dict notes)\<rparr>"

text \<open>The list comprehension of \<open>load_notes\<close>: the first exception ends it.\<close>

fun from_dicts :: "note_data list \<Rightarrow> world \<Rightarrow> (error + Note list) \<times> world" where
  "from_dicts [] w = (Inr [], w)"
| "from_dicts (d # ds) w =
     (case from_dict d w of
        (Inl e, w1) \<Rightarrow> (Inl e, w1)
      | (Inr n, w1) \<Rightarrow>
          (case from_dicts ds w1 of
             (Inl e, w2) \<Rightarrow> (Inl e, w2)
           | (Inr ns, w2) \<Rightarrow> (Inr (n # ns), w2)))"

text \<open>
  \<open>load_notes\<close>: the handler catches \<open>JSONDecodeError\<close> and \<open>KeyError\<close> and returns the
  empty list; any other exception leaves the function.
\<close>

definition load_notes :: "world \<Rightarrow> (error + Note list) \<times> world" where
  "load_notes w =
     (let w0 = ensure_file_exists w in
      case backing_file w0 of
        Absent \<Rightarrow> (Inl FileNotFoundError, w0)
      | Undecodable \<Rightarrow> (Inr [], w0)
      | JSONArray ds \<Rightarrow>
          (case from_dicts ds w0 of
             (Inl KeyError, w1) \<Rightarrow> (Inr [], w1)
           | (Inl e, w1) \<Rightarrow> (Inl e, w1)
           | (Inr ns, w1) \<Rightarrow> (Inr ns, w1)))"

definition get_next_id :: "world \<Rightarrow> (error + int) \<times> world" where
  "get_next_id w =
     (case load_notes w of
        (Inl e, w1) \<Rightarrow> (Inl e, w1)
      | (Inr notes, w1) \<Rightarrow>
          (Inr (if notes = [] then 1 else Max (set (map note_id notes)) + 1), w1))"

section \<open>Command layer (notebook/commands.py)\<close>

text \<open>
  The text an operation returns: one constructor for each \<open>return\<close> statement of the
  command layer, carrying the values its f-string interpolates.  \<open>Listing\<close> and
  \<open>SearchResults\<close> carry the notes in the order in which they are rendered.
\<close>

datatype message =
    InvalidCategory string "string list"
  | InvalidPriority string
  | InvalidStatus string
  | NoteAdded int string
  | NoNotes
  | NoMatches
  | Listing "Note list" bool
  | QueryNotFound string
  | SearchResults string "Note list"
  | NoteDeleted int string
  | NoteNotFound int
  | AlreadyArchived int
  | NoteArchived int string
  | NoteUpdated int string

definition valid_categories :: "string list" where
  "valid_categories = map NoteCategory_value NoteCategory_members"

text \<open>
  \<open>list.sort(key=..., reverse=True)\<close>: descending by key, and stable, so that items
  with equal keys keep their original order (the list is reversed, sorted by a
  stable ascending sort, and reversed again).
\<close>

definition sort_reverse :: "('a \<Rightarrow> 'k::linorder) \<Rightarrow> 'a list \<Rightarrow> 'a list" where
  "sort_reverse key xs = rev (sort_key key (rev xs))"

text \<open>\<open>needle in hay\<close> on strings: \<open>needle\<close> occurs in \<open>hay\<close> as a contiguous piece.\<close>

fun str_in :: "string \<Rightarrow> string \<Rightarrow> bool" where
  "str_in needle [] = (needle = [])"
| "str_in needle (h # hs) = (prefix needle (h # hs) \<or> str_in needle hs)"

text \<open>
  \<open>str(note)\<close> parses \<open>created_at\<close> with \<open>datetime.fromisoformat\<close>; rendering a list of
  notes raises \<open>ValueError\<close> when one of them has a \<open>created_at\<close> it does not accept.
\<close>

definition renders :: "world \<Rightarrow> Note list \<Rightarrow> bool" where
  "renders w notes = list_all (\<lambda>n. fromisoformat_ok w (created_at n)) notes"

text \<open>The first position of a list whose element satisfies \<open>P\<close> (the \<open>for\<close> loops that
  stop at the first note with the wanted id).\<close>

fun first_index :: "('a \<Rightarrow> bool) \<Rightarrow> 'a list \<Rightarrow> nat option" where
  "first_index P [] = None"
| "first_index P (x # xs) = (if P x then Some 0 else map_option Suc (first_index P xs))"

definition add_note ::
  "string \<Rightarrow> string \<Rightarrow> string \<Rightarrow> string \<Rightarrow> string list option \<Rightarrow> world \<Rightarrow>
   (error + message) \<times> world" where
  "add_note ttl cnt cat_s pri_s tgs w =
     (case load_notes w of
        (Inl e, w1) \<Rightarrow> (Inl e, w1)
      | (Inr notes, w1) \<Rightarrow>
          (case NoteCategory_of (lower cat_s) of
             None \<Rightarrow> (Inr (InvalidCategory cat_s valid_categories), w1)
           | Some cat \<Rightarrow>
               (case NotePriority_of (lower pri_s) of
                  None \<Rightarrow> (Inr (InvalidPriority pri_s), w1)
                | Some pri \<Rightarrow>
                    (case get_next_id w1 of
                       (Inl e, w2) \<Rightarrow> (Inl e, w2)
                     | (Inr i, w2) \<Rightarrow>
                         (let (new_note, w3) =
                                Note_init i ttl cnt cat pri
                                  (Some (case tgs of None \<Rightarrow> [] | Some ts \<Rightarrow> ts))
                                  ACTIVE None None w2
                          in (Inr (NoteAdded (note_id new_note) ttl),
                              save_notes (notes @ [new_note]) w3))))))"

text \<open>
  The three filter blocks of \<open>list_notes\<close>.  A filter is applied when its argument is
  truthy (neither \<open>None\<close> nor the empty string); an unknown value ends the operation
  with the error text (\<open>Inl\<close>).
\<close>

definition filter_category :: "string option \<Rightarrow> Note list \<Rightarrow> message + Note list" where
  "filter_category cat_f notes =
     (case cat_f of
        None \<Rightarrow> Inr notes
      | Some s \<Rightarrow>
          if s = [] then Inr notes
          else (case NoteCategory_of (lower s) of
                  None \<Rightarrow> Inl (InvalidCategory s valid_categories)
                | Some c \<Rightarrow> Inr (filter (\<lambda>n. category n = c) notes)))"

definition filter_priority :: "string option \<Rightarrow> Note list \<Rightarrow> message + Note list" where
  "filter_priority pri_f notes =
     (case pri_f of
        None \<Rightarrow> Inr notes
      | Some s \<Rightarrow>
          if s = [] then Inr notes
          else (case NotePriority_of (lower s) of
                  None \<Rightarrow> Inl (InvalidPriority s)
                | Some p \<Rightarrow> Inr (filter (\<lambda>n. priority n = p) notes)))"

definition filter_status :: "string option \<Rightarrow> Note list \<Rightarrow> message + Note list" where
  "filter_status st_f notes =
     (case st_f of
        None \<Rightarrow> Inr notes
      | Some s \<Rightarrow>
          if s = [] then Inr notes
          else (case NoteStatus_of (lower s) of
                  None \<Rightarrow> Inl (InvalidStatus s)
                | Some st \<Rightarrow> Inr (filter (\<lambda>n. status n = st) notes)))"

definition list_notes ::
  "string option \<Rightarrow> string option \<Rightarrow> string option \<Rightarrow> bool \<Rightarrow> world \<Rightarrow>
   (error + message) \<times> world" where
  "list_notes cat_f pri_f st_f show_content w =
     (case load_notes w of
        (Inl e, w1) \<Rightarrow> (Inl e, w1)
      | (Inr notes, w1) \<Rightarrow>
          if notes = [] then (Inr NoNotes, w1)
          else
            (case filter_category cat_f notes of
               Inl m \<Rightarrow> (Inr m, w1)
             | Inr f1 \<Rightarrow>
            (case filter_priority pri_f f1 of
               Inl m \<Rightarrow> (Inr m, w1)
             | Inr f2 \<Rightarrow>
            (case filter_status st_f f2 of
               Inl m \<Rightarrow> (Inr m, w1)
             | Inr filtered_notes \<Rightarrow>
                 if filtered_notes = [] then (Inr NoMatches, w1)
                 else
                   (let sorted_notes = sort_reverse created_at filtered_notes
                    in if renders w1 sorted_notes
                       then (Inr (Listing sorted_notes show_content), w1)
                       else (Inl ValueError, w1))))))"

text \<open>The body of the search loop: the \<open>if\<close>/\<open>elif\<close> chain that sets \<open>matches\<close>.\<close>

definition note_matches :: "string \<Rightarrow> string \<Rightarrow> Note \<Rightarrow> bool" where
  "note_matches search_in search_term n =
     (if search_in \<in> set [''all'', ''title''] \<and> str_in search_term (lower (title n))
        then True
      else if search_in \<in> set [''all'', ''content''] \<and> str_in search_term (lower (content n))
        then True
      else if search_in \<in> set [''all'', ''tags'']
              \<and> list_ex (\<lambda>tag. str_in search_term (lower tag)) (tags n)
        then True
      else False)"

definition search_notes :: "string \<Rightarrow> string \<Rightarrow> world \<Rightarrow> (error + message) \<times> world" where
  "search_notes search_term search_in w =
     (case load_notes w of
        (Inl e, w1) \<Rightarrow> (Inl e, w1)
      | (Inr notes, w1) \<Rightarrow>
          if notes = [] then (Inr NoNotes, w1)
          else
            (let term_l = lower search_term;
                 found_notes = filter (note_matches search_in term_l) notes
             in if found_notes = [] then (Inr (QueryNotFound term_l), w1)
                else
                  (let sorted_notes = sort_reverse created_at found_notes
                   in if renders w1 sorted_notes
                      then (Inr (SearchResults term_l sorted_notes), w1)
                      else (Inl ValueError, w1))))"

definition delete_note :: "int \<Rightarrow> world \<Rightarrow> (error + message) \<times> world" where
  "delete_note nid w =
     (case load_notes w of
        (Inl e, w1) \<Rightarrow> (Inl e, w1)
      | (Inr notes, w1) \<Rightarrow>
          (case first_index (\<lambda>n. note_id n = nid) notes of
             None \<Rightarrow> (Inr (NoteNotFound nid), w1)
           | Some i \<Rightarrow>
               (Inr (NoteDeleted nid (title (notes ! i))),
                save_notes (take i notes @ drop (Suc i) notes) w1)))"

definition archive_note :: "int \<Rightarrow> world \<Rightarrow> (error + message) \<times> world" where
  "archive_note nid w =
     (case load_notes w of
        (Inl e, w1) \<Rightarrow> (Inl e, w1)
      | (Inr notes, w1) \<Rightarrow>
          (case first_index (\<lambda>n. note_id n = nid) notes of
             None \<Rightarrow> (Inr (NoteNotFound nid), w1)
           | Some i \<Rightarrow>
               if status (notes ! i) = ARCHIVED then (Inr (AlreadyArchived nid), w1)
               else
                 (let (t, w2) = now w1;
                      n = (notes ! i)\<lparr>status := ARCHIVED, updated_at := t\<rparr>
                  in (Inr (NoteArchived nid (title n)), save_notes (notes[i := n]) w2))))"

text \<open>
  The two validation blocks of \<open>edit_note\<close>: a falsy argument leaves the field alone
  (\<open>Inr None\<close>), an unknown value ends the operation with the error text.
\<close>

definition edit_category :: "string option \<Rightarrow> message + NoteCategory option" where
  "edit_category cat_s =
     (case cat_s of
        None \<Rightarrow> Inr None
      | Some s \<Rightarrow>
          if s = [] then Inr None
          else (case NoteCategory_of (lower s) of
                  None \<Rightarrow> Inl (InvalidCategory s valid_categories)
                | Some c \<Rightarrow> Inr (Some c)))"

definition edit_priority :: "string option \<Rightarrow> message + NotePriority option" where
  "edit_priority pri_s =
     (case pri_s of
        None \<Rightarrow> Inr None
      | Some s \<Rightarrow>
          if s = [] then Inr None
          else (case NotePriority_of (lower s) of
                  None \<Rightarrow> Inl (InvalidPriority s)
                | Some p \<Rightarrow> Inr (Some p)))"

definition edit_note ::
  "int \<Rightarrow> string option \<Rightarrow> string option \<Rightarrow> string option \<Rightarrow> string option \<Rightarrow>
   string list option \<Rightarrow> world \<Rightarrow> (error + message) \<times> world" where
  "edit_note nid ttl cnt cat_s pri_s tgs w =
     (case load_notes w of
        (Inl e, w1) \<Rightarrow> (Inl e, w1)
      | (Inr notes, w1) \<Rightarrow>
          (case first_index (\<lambda>n. note_id n = nid) notes of
             None \<Rightarrow> (Inr (NoteNotFound nid), w1)
           | Some i \<Rightarrow>
               (case edit_category cat_s of
                  Inl m \<Rightarrow> (Inr m, w1)
                | Inr note_category \<Rightarrow>
               (case edit_priority pri_s of
                  Inl m \<Rightarrow> (Inr m, w1)
                | Inr note_priority \<Rightarrow>
                    (let (n, w2) = update ttl cnt note_category note_priority tgs (notes ! i) w1
                     in (Inr (NoteUpdated nid (title n)), save_notes (notes[i := n]) w2))))))"

text \<open>One call of the command layer, as the presentation layer makes it.\<close>

datatype command =
    Add string string string string "string list option"
  | List_notes "string option" "string option" "string option" bool
  | Search string string
  | Delete int
  | Archive int
  | Edit int "string option" "string option" "string option" "string option"
      "string list option"

fun run :: "command \<Rightarrow> world \<Rightarrow> (error + message) \<times> world" where
  "run (Add ttl cnt cat_s pri_s tgs) w = add_note ttl cnt cat_s pri_s tgs w"
| "run (List_notes cat_f pri_f st_f show_content) w = list_notes cat_f pri_f st_f show_content w"
| "run (Search search_term search_in) w = search_notes search_term search_in w"
| "run (Delete nid) w = delete_note nid w"
| "run (Archive nid) w = archive_note nid w"
| "run (Edit nid ttl cnt cat_s pri_s tgs) w = edit_note nid ttl cnt cat_s pri_s tgs w"

section \<open>Notions used to state the properties\<close>

text \<open>The notes an outcome hands back to the caller: those of a listing or of a search
  result; every other text, and an exception, carries none.\<close>

fun returned_notes :: "error + message \<Rightarrow> Note list" where
  "returned_notes (Inr (Listing ns b)) = ns"
| "returned_notes (Inr (SearchResults s ns)) = ns"
| "returned_notes r = []"

text \<open>Both timestamps are non-empty strings, as every ISO-8601 timestamp is.\<close>

definition has_timestamps :: "Note \<Rightarrow> bool" where
  "has_timestamps n = (created_at n \<noteq> [] \<and> updated_at n \<noteq> [])"



text \<open>The persisted collection: what the next load reads; an absent file reads as the
  empty array, which \<open>_ensure_file_exists\<close> writes before any read.\<close>

definition persisted :: "world \<Rightarrow> file_state" where
  "persisted w = backing_file (ensure_file_exists w)"

fun is_validation_error :: "message \<Rightarrow> bool" where
  "is_validation_error (InvalidCategory s vs) = True"
| "is_validation_error (InvalidPriority s) = True"
| "is_validation_error (InvalidStatus s) = True"
| "is_validation_error m = False"

fun is_not_found :: "message \<Rightarrow> bool" where
  "is_not_found (NoteNotFound i) = True"
| "is_not_found m = False"

text \<open>
  \<open>found\<close> is in descending order of \<open>created_at\<close>, and among its notes with one and
  the same \<open>created_at\<close> the order is the one they have in the loaded list \<open>ns\<close>.
\<close>

definition newest_first_stable :: "Note list \<Rightarrow> Note list \<Rightarrow> bool" where
  "newest_first_stable ns found =
     (sorted_wrt (\<lambda>a b. created_at b \<le> created_at a) found
      \<and> (\<forall>k. filter (\<lambda>n. created_at n = k) found
               = filter (\<lambda>n. created_at n = k \<and> n \<in> set found) ns))"

text \<open>A sequence of calls of the command layer, each on the state the previous one
  left (a call that ends with an exception leaves the state it had reached).\<close>

fun run_all :: "command list \<Rightarrow> world \<Rightarrow> world" where
  "run_all [] w = w"
| "run_all (c # cs) w = run_all cs (snd (run c w))"

fun is_Add :: "command \<Rightarrow> bool" where
  "is_Add (Add ttl cnt cat_s pri_s tgs) = True"
| "is_Add c = False"

text \<open>The collection of a state: the notes a load returns there, and their ids.\<close>

definition collection :: "world \<Rightarrow> Note list" where
  "collection w = (case fst (load_notes w) of Inl e \<Rightarrow> [] | Inr ns \<Rightarrow> ns)"

definition collection_ids :: "world \<Rightarrow> int list" where
  "collection_ids w = map note_id (collection w)"

text \<open>
  The invariant behind the order of the timestamps.  A note is \<open>stamped\<close> in a state when
  its \<open>created_at\<close> is non-empty and not after its \<open>updated_at\<close>, which is not after the
  next reading of the clock.  A store is in order when the file is absent or undecodable
  (both read as the empty collection), or is the saved form of stamped notes.
\<close>

definition stamped :: "world \<Rightarrow> Note \<Rightarrow> bool" where
  "stamped w n =
     (created_at n \<noteq> [] \<and> created_at n \<le> updated_at n \<and> updated_at n \<le> clock w (ticks w))"

definition store_ok :: "world \<Rightarrow> bool" where
  "store_ok w =
     (case backing_file w of
        JSONArray ds \<Rightarrow> \<exists>ns. ds = map to_dict ns \<and> list_all (stamped w) ns
      | _ \<Rightarrow> True)"

section \<open>Example data\<close>

definition example_clock :: "nat \<Rightarrow> string" where
  "example_clock k = ''2024-01-01T10:00:00.'' @ replicate k (CHR ''1'')"

definition example_world :: "file_state \<Rightarrow> world" where
  "example_world f =
     \<lparr>backing_file = f, clock = example_clock, ticks = 0, fromisoformat_ok = (\<lambda>s. s \<noteq> [])\<rparr>"

definition bad_enum_record :: note_data where
  "bad_enum_record =
     \<lparr>d_id = Some 1, d_title = Some ''Buy milk'', d_content = Some ''2% milk, eggs'',
      d_category = Some ''groceries'', d_priority = Some ''low'', d_tags = Some [''errand''],
      d_status = Some ''active'', d_created_at = Some ''2024-01-01T09:00:00'',
      d_updated_at = Some ''2024-01-01T09:00:00''\<rparr>"

definition note1 :: Note where
  "note1 =
     \<lparr>note_id = 1, title = ''Buy milk'', content = ''2% milk, eggs'', category = SHOPPING,
      priority = LOW, tags = [''errand''], status = ACTIVE,
      created_at = ''2024-01-01T09:00:00'', updated_at = ''2024-01-01T09:00:00''\<rparr>"

definition note2 :: Note where
  "note2 =
     \<lparr>note_id = 2, title = ''Report'', content = ''Finish the WORK report'', category = WORK,
      priority = HIGH, tags = [], status = ARCHIVED,
      created_at = ''2024-01-02T09:00:00'', updated_at = ''2024-01-03T09:00:00''\<rparr>"

definition note3 :: Note where
  "note3 =
     \<lparr>note_id = 3, title = ''Work plan'', content = ''Draft'', category = WORK,
      priority = MEDIUM, tags = [''Plan''], status = ACTIVE,
      created_at = ''2024-01-01T09:00:00'', updated_at = ''2024-01-01T09:30:00''\<rparr>"

definition example_notes :: "Note list" where
  "example_notes = [note1, note2, note3]"

definition example_file :: file_state where
  "example_file = JSONArray (map to_dict example_notes)"

definition milk_commands :: "command list" where
  "milk_commands =
     [Add ''Buy milk'' ''2% milk, eggs'' ''shopping'' ''low'' (Some [''errand'']), Archive 1]"

definition milk_note :: Note where
  "milk_note =
     \<lparr>note_id = 1, title = ''Buy milk'', content = ''2% milk, eggs'', category = SHOPPING,
      priority = LOW, tags = [''errand''], status = ARCHIVED,
      created_at = ''2024-01-01T10:00:00.'', updated_at = ''2024-01-01T10:00:00.11''\<rparr>"

section \<open>Serialisation round trip\<close>

lemma NoteCategory_of_value: "NoteCategory_of (NoteCategory_value c) = Some c"
  by (cases c) (simp_all add: NoteCategory_of_def NoteCategory_members_def)

lemma NotePriority_of_value: "NotePriority_of (NotePriority_value p) = Some p"
  by (cases p) (simp_all add: NotePriority_of_def NotePriority_members_def)

lemma NoteStatus_of_value: "NoteStatus_of (NoteStatus_value s) = Some s"
  by (cases s) (simp_all add: NoteStatus_of_def NoteStatus_members_def)

lemma from_dict_to_dict:
  assumes "has_timestamps n"
  shows "from_dict (to_dict n) w = (Inr n, w)"
  using assms
  by (simp add: from_dict_def to_dict_def NoteCategory_of_value NotePriority_of_value
      NoteStatus_of_value Note_init_def or_now_def has_timestamps_def)

lemma from_dicts_to_dict:
  assumes "list_all has_timestamps ns"
  shows "from_dicts (map to_dict ns) w = (Inr ns, w)"
  using assms by (induction ns) (simp_all add: from_dict_to_dict)

lemma load_notes_JSONArray:
  assumes "backing_file w = JSONArray (map to_dict ns)" and "list_all has_timestamps ns"
  shows "load_notes w = (Inr ns, w)"
  using assms by (simp add: load_notes_def ensure_file_exists_def from_dicts_to_dict)

lemma example_notes_timestamps: "list_all has_timestamps example_notes"
  by (simp add: example_notes_def note1_def note2_def note3_def has_timestamps_def)

text \<open>
  Claim C3.  For every collection of notes whose timestamps are non-empty strings (every
  well-formed note is one), saving the collection and loading it again yields the saved
  sequence, equal field for field and in the same order, and the load changes nothing;
  note by note, \<open>from_dict (to_dict n)\<close> reconstructs \<open>n\<close>.
\<close>

theorem save_then_load:
  assumes "list_all has_timestamps ns"
  shows "load_notes (save_notes ns w) = (Inr ns, save_notes ns w)
         \<and> list_all (\<lambda>n. from_dict (to_dict n) w = (Inr n, w)) ns"
proof
  show "load_notes (save_notes ns w) = (Inr ns, save_notes ns w)"
    using assms by (intro load_notes_JSONArray) (simp_all add: save_notes_def)
  show "list_all (\<lambda>n. from_dict (to_dict n) w = (Inr n, w)) ns"
    using assms by (simp add: list_all_iff from_dict_to_dict)
qed

theorem save_then_load_witness:
  "list_all has_timestamps example_notes
   \<and> fst (load_notes (save_notes example_notes (example_world Absent))) = Inr example_notes"
  using save_then_load [OF example_notes_timestamps, of "example_world Absent"]
    example_notes_timestamps
  by simp

section \<open>Loading damaged files\<close>

text \<open>What the handler of \<open>load_notes\<close> does cover: text that is not JSON, and a record
  with a required key missing, both read as the empty collection.\<close>

lemma load_notes_Undecodable:
  "backing_file w = Undecodable \<Longrightarrow> load_notes w = (Inr [], w)"
  by (simp add: load_notes_def ensure_file_exists_def)

lemma load_notes_KeyError:
  "backing_file w = JSONArray ds \<Longrightarrow> from_dicts ds w = (Inl KeyError, w1) \<Longrightarrow>
   load_notes w = (Inr [], w1)"
  by (simp add: load_notes_def ensure_file_exists_def)

text \<open>
  Claim C1.  The load is to return the empty sequence whenever the file cannot be
  decoded or a record fails \<open>from_dict\<close>.  For undecodable text and for a missing required
  key it does (the two lemmas above).  For an enumeration value that is not recognised it
  does not: on a file that holds one record with the category \<open>groceries\<close>,
  \<open>load_notes\<close> ends with the \<open>ValueError\<close> of the enumeration lookup, which its handler
  does not catch.
\<close>

theorem load_notes_unknown_category_raises:
  "fst (load_notes (w\<lparr>backing_file := JSONArray [bad_enum_record]\<rparr>)) = Inl ValueError"
  by (simp add: load_notes_def ensure_file_exists_def from_dict_def bad_enum_record_def
      NoteCategory_of_def NoteCategory_members_def)

section \<open>Sorting newest first\<close>

lemma set_sort_reverse: "set (sort_reverse k xs) = set xs"
  by (simp add: sort_reverse_def)

lemma sort_reverse_descending: "sorted_wrt (\<lambda>a b. k b \<le> k a) (sort_reverse k xs)"
proof -
  have "sorted (map k (sort_key k (rev xs)))"
    by (rule sorted_sort_key)
  then show ?thesis
    by (simp add: sort_reverse_def sorted_wrt_rev sorted_map)
qed

lemma sort_reverse_stable:
  "filter (\<lambda>y. k y = v) (sort_reverse k xs) = filter (\<lambda>y. k y = v) xs"
  by (simp add: sort_reverse_def sort_key_stable flip: rev_filter)

lemma sort_reverse_filter_stable:
  "newest_first_stable ns (sort_reverse created_at (filter P ns))"
  unfolding newest_first_stable_def
proof (intro conjI allI)
  show "sorted_wrt (\<lambda>a b. created_at b \<le> created_at a) (sort_reverse created_at (filter P ns))"
    by (rule sort_reverse_descending)
next
  fix k
  have "filter (\<lambda>n. created_at n = k \<and> n \<in> set (sort_reverse created_at (filter P ns))) ns
        = filter (\<lambda>n. created_at n = k \<and> P n) ns"
    by (rule filter_cong) (auto simp: set_sort_reverse)
  then show "filter (\<lambda>n. created_at n = k) (sort_reverse created_at (filter P ns))
        = filter (\<lambda>n. created_at n = k \<and> n \<in> set (sort_reverse created_at (filter P ns))) ns"
    by (simp add: sort_reverse_stable conj_commute)
qed

lemma newest_first_stable_Nil: "newest_first_stable ns []"
  by (simp add: newest_first_stable_def)

section \<open>Listing\<close>

lemma filter_category_is_filter:
  assumes "filter_category c ns = Inr fs"
  shows "\<exists>P. fs = filter P ns"
proof (cases "fs = ns")
  case True
  then show ?thesis by (intro exI [of _ "\<lambda>_. True"]) simp
next
  case False
  with assms show ?thesis
    by (auto simp: filter_category_def split: option.splits if_splits)
qed

lemma filter_priority_is_filter:
  assumes "filter_priority c ns = Inr fs"
  shows "\<exists>P. fs = filter P ns"
proof (cases "fs = ns")
  case True
  then show ?thesis by (intro exI [of _ "\<lambda>_. True"]) simp
next
  case False
  with assms show ?thesis
    by (auto simp: filter_priority_def split: option.splits if_splits)
qed

lemma filter_status_is_filter:
  assumes "filter_status c ns = Inr fs"
  shows "\<exists>P. fs = filter P ns"
proof (cases "fs = ns")
  case True
  then show ?thesis by (intro exI [of _ "\<lambda>_. True"]) simp
next
  case False
  with assms show ?thesis
    by (auto simp: filter_status_def split: option.splits if_splits)
qed

lemma filter_category_Inl: "filter_category c ns = Inl m \<Longrightarrow> is_validation_error m"
  by (auto simp: filter_category_def split: option.splits if_splits)

lemma filter_priority_Inl: "filter_priority c ns = Inl m \<Longrightarrow> is_validation_error m"
  by (auto simp: filter_priority_def split: option.splits if_splits)

lemma filter_status_Inl: "filter_status c ns = Inl m \<Longrightarrow> is_validation_error m"
  by (auto simp: filter_status_def split: option.splits if_splits)

lemma returned_notes_validation_error:
  "is_validation_error m \<Longrightarrow> returned_notes (Inr m) = []"
  by (cases m) simp_all

lemma list_notes_returned:
  assumes "load_notes w = (Inr ns, w1)"
  shows "returned_notes (fst (list_notes cat_f pri_f st_f sc w)) = []
         \<or> (\<exists>f1 f2 f3. filter_category cat_f ns = Inr f1 \<and> filter_priority pri_f f1 = Inr f2
               \<and> filter_status st_f f2 = Inr f3
               \<and> returned_notes (fst (list_notes cat_f pri_f st_f sc w))
                   = sort_reverse created_at f3)"
  using assms
  by (cases "filter_category cat_f ns"; cases "filter_priority pri_f (projr (filter_category cat_f ns))";
      cases "filter_status st_f (projr (filter_priority pri_f (projr (filter_category cat_f ns))))")
     (auto simp: list_notes_def Let_def
        dest!: filter_category_Inl filter_priority_Inl filter_status_Inl
        intro: returned_notes_validation_error)


lemma filter_three_is_filter:
  assumes "filter_category cat_f ns = Inr f1" and "filter_priority pri_f f1 = Inr f2"
    and "filter_status st_f f2 = Inr f3"
  shows "\<exists>P. f3 = filter P ns"
proof -
  obtain P1 where "f1 = filter P1 ns" using assms(1) filter_category_is_filter by blast
  moreover obtain P2 where "f2 = filter P2 f1" using assms(2) filter_priority_is_filter by blast
  moreover obtain P3 where "f3 = filter P3 f2" using assms(3) filter_status_is_filter by blast
  ultimately have "f3 = filter (\<lambda>n. P1 n \<and> P2 n \<and> P3 n) ns"
    by (auto intro: filter_cong)
  then show ?thesis by blast
qed

lemma list_notes_newest_first:
  assumes "load_notes w = (Inr ns, w1)"
  shows "newest_first_stable ns (returned_notes (fst (list_notes cat_f pri_f st_f sc w)))"
  using list_notes_returned [OF assms, of cat_f pri_f st_f sc]
  by (auto simp: newest_first_stable_Nil sort_reverse_filter_stable dest!: filter_three_is_filter)

lemma example_world_sel:
  "backing_file (example_world f) = f"
  "clock (example_world f) = example_clock"
  "ticks (example_world f) = 0"
  "fromisoformat_ok (example_world f) = (\<lambda>s. s \<noteq> [])"
  by (simp_all add: example_world_def)

lemma load_example:
  "load_notes (example_world example_file) = (Inr example_notes, example_world example_file)"
  by (rule load_notes_JSONArray)
     (simp_all add: example_world_sel example_file_def example_notes_timestamps)

lemma list_notes_load_error:
  "load_notes w = (Inl e, w1) \<Longrightarrow> list_notes cat_f pri_f st_f sc w = (Inl e, w1)"
  by (simp add: list_notes_def)

lemma search_notes_load_error:
  "load_notes w = (Inl e, w1) \<Longrightarrow> search_notes t scope w = (Inl e, w1)"
  by (simp add: search_notes_def)

lemma filter_status_archived:
  "filter_status (Some ''archived'') ns = Inr (filter (\<lambda>n. status n = ARCHIVED) ns)"
  by (simp add: filter_status_def NoteStatus_of_def NoteStatus_members_def lower_def lower_char_def)

lemma filter_status_active:
  "filter_status (Some ''active'') ns = Inr (filter (\<lambda>n. status n = ACTIVE) ns)"
  by (simp add: filter_status_def NoteStatus_of_def NoteStatus_members_def lower_def lower_char_def)

lemma list_notes_status:
  assumes "filter_status st_f = (\<lambda>ns. Inr (filter (\<lambda>n. status n = st) ns))"
  shows "\<forall>n \<in> set (returned_notes (fst (list_notes cat_f pri_f st_f sc w))). status n = st"
proof (cases "load_notes w")
  case (Pair r w1)
  show ?thesis
  proof (cases r)
    case (Inl e)
    with Pair show ?thesis by (simp add: list_notes_load_error)
  next
    case (Inr ns)
    with Pair have "load_notes w = (Inr ns, w1)" by simp
    from list_notes_returned [OF this, of cat_f pri_f st_f sc] show ?thesis
      by (auto simp: assms set_sort_reverse)
  qed
qed

text \<open>
  Claim C6.  \<open>list_notes\<close> called with the status \<open>archived\<close> returns no note whose
  status is active, and called with the status \<open>active\<close> (the default of the
  parameter) it returns no archived note; this holds for every state of the file and
  whatever the category filter, the priority filter and \<open>show_content\<close> are, the default
  call \<open>list_notes None None (Some ''active'') False\<close> included.
\<close>

theorem list_notes_respects_status:
  "(\<forall>n \<in> set (returned_notes (fst (list_notes cat_f pri_f (Some ''archived'') sc w))).
      status n = ARCHIVED)
   \<and> (\<forall>n \<in> set (returned_notes (fst (list_notes cat_f pri_f (Some ''active'') sc w))).
      status n = ACTIVE)"
  by (intro conjI list_notes_status ext filter_status_archived filter_status_active)

lemma example_list_archived:
  "fst (list_notes None None (Some ''archived'') False (example_world example_file))
   = Inr (Listing [note2] False)"
  by (simp add: list_notes_def load_example filter_status_archived filter_category_def
      filter_priority_def example_notes_def note1_def note2_def note3_def sort_reverse_def
      renders_def example_world_sel)

lemma example_list_active:
  "fst (list_notes None None (Some ''active'') False (example_world example_file))
   = Inr (Listing [note1, note3] False)"
  by (simp add: list_notes_def load_example filter_status_active filter_category_def
      filter_priority_def example_notes_def note1_def note2_def note3_def sort_reverse_def
      renders_def example_world_sel)

theorem list_notes_respects_status_witness:
  "returned_notes (fst (list_notes None None (Some ''archived'') False
      (example_world example_file))) = [note2]
   \<and> status note2 = ARCHIVED
   \<and> returned_notes (fst (list_notes None None (Some ''active'') False
      (example_world example_file))) = [note1, note3]
   \<and> status note1 = ACTIVE \<and> status note3 = ACTIVE"
  using list_notes_respects_status [of None None False "example_world example_file"]
  by (simp add: example_list_archived example_list_active)

section \<open>Order of the results\<close>

lemma search_notes_returned:
  assumes "load_notes w = (Inr ns, w1)"
  shows "returned_notes (fst (search_notes t scope w)) = []
         \<or> returned_notes (fst (search_notes t scope w))
             = sort_reverse created_at (filter (note_matches scope (lower t)) ns)"
  using assms by (auto simp: search_notes_def Let_def)

lemma search_notes_newest_first:
  assumes "load_notes w = (Inr ns, w1)"
  shows "newest_first_stable ns (returned_notes (fst (search_notes t scope w)))"
  using search_notes_returned [OF assms, of t scope]
  by (auto simp: newest_first_stable_Nil sort_reverse_filter_stable)

text \<open>
  Claim C7.  The notes that \<open>list_notes\<close> returns after filtering, and the notes that
  \<open>search_notes\<close> returns, are in descending order of \<open>created_at\<close>, and notes with equal
  \<open>created_at\<close> keep the order they have in the file (the sort is stable).
\<close>

theorem results_newest_first:
  assumes "load_notes w = (Inr ns, w1)"
  shows "newest_first_stable ns (returned_notes (fst (list_notes cat_f pri_f st_f sc w)))
         \<and> newest_first_stable ns (returned_notes (fst (search_notes t scope w)))"
  using assms by (intro conjI list_notes_newest_first search_notes_newest_first)

lemma example_list_all:
  "fst (list_notes None None None False (example_world example_file))
   = Inr (Listing [note2, note1, note3] False)"
  by (simp add: list_notes_def load_example filter_status_def filter_category_def
      filter_priority_def example_notes_def note1_def note2_def note3_def sort_reverse_def
      renders_def example_world_sel)

lemma search_notes_found:
  assumes "load_notes w = (Inr ns, w1)"
    and "filter (note_matches scope (lower t)) ns = found" and "found \<noteq> []"
    and "sort_reverse created_at found = sorted_notes" and "renders w1 sorted_notes"
  shows "search_notes t scope w = (Inr (SearchResults (lower t) sorted_notes), w1)"
proof -
  from assms(2,3) have "ns \<noteq> []" by auto
  with assms show ?thesis by (simp add: search_notes_def)
qed

lemma lower_R: "lower ''R'' = ''r''"
  by (simp add: lower_def lower_char_def)

lemma example_matches_r:
  "note_matches ''all'' ''r'' note1" "note_matches ''all'' ''r'' note2"
  "note_matches ''all'' ''r'' note3"
  by (simp_all add: note_matches_def note1_def note2_def note3_def lower_def lower_char_def)

lemma example_sorted:
  "sort_reverse created_at [note1, note2, note3] = [note2, note1, note3]"
  by (simp add: sort_reverse_def note1_def note2_def note3_def)

lemma example_renders: "renders (example_world f) [note2, note1, note3]"
  by (simp add: renders_def example_world_sel note1_def note2_def note3_def)

lemma example_search_all:
  "search_notes ''R'' ''all'' (example_world example_file)
   = (Inr (SearchResults ''r'' [note2, note1, note3]), example_world example_file)"
proof -
  have "filter (note_matches ''all'' (lower ''R'')) example_notes = [note1, note2, note3]"
    by (simp add: lower_R example_matches_r example_notes_def)
  from search_notes_found [OF load_example this _ example_sorted example_renders]
  show ?thesis by (simp add: lower_R)
qed

theorem results_newest_first_witness:
  "fst (load_notes (example_world example_file)) = Inr example_notes
   \<and> returned_notes (fst (list_notes None None None False (example_world example_file)))
       = [note2, note1, note3]
   \<and> returned_notes (fst (search_notes ''R'' ''all'' (example_world example_file)))
       = [note2, note1, note3]
   \<and> newest_first_stable example_notes [note2, note1, note3]"
  using results_newest_first [OF load_example, of None None None False "''R''" "''all''"]
  by (simp add: example_list_all example_search_all load_example)

section \<open>Search scope\<close>

lemma note_matches_unknown_scope:
  assumes "scope \<notin> {''title'', ''content'', ''tags'', ''all''}"
  shows "\<not> note_matches scope x n"
  using assms by (simp add: note_matches_def)

text \<open>
  Claim C10.  On a non-empty collection, a search whose scope is none of \<open>title\<close>,
  \<open>content\<close>, \<open>tags\<close>, \<open>all\<close> matches no note and returns the ordinary text for a query
  without results, carrying the lowered search term: the scope is not validated and no
  error of its own is produced.
\<close>

theorem search_notes_unknown_scope:
  assumes "load_notes w = (Inr ns, w1)" and "ns \<noteq> []"
    and "scope \<notin> {''title'', ''content'', ''tags'', ''all''}"
  shows "search_notes t scope w = (Inr (QueryNotFound (lower t)), w1)
         \<and> filter (note_matches scope (lower t)) ns = []"
  using assms by (simp add: search_notes_def note_matches_unknown_scope)

theorem search_notes_unknown_scope_witness:
  "fst (load_notes (example_world example_file)) = Inr example_notes
   \<and> example_notes \<noteq> []
   \<and> ''body'' \<notin> {''title'', ''content'', ''tags'', ''all''}
   \<and> fst (search_notes ''Milk'' ''body'' (example_world example_file))
       = Inr (QueryNotFound ''milk'')"
proof -
  have ne: "example_notes \<noteq> []"
    by (simp add: example_notes_def)
  have sc: "''body'' \<notin> {''title'', ''content'', ''tags'', ''all''}"
    by simp
  from search_notes_unknown_scope [OF load_example ne sc, of "''Milk''"] ne sc
  show ?thesis
    by (simp add: load_example lower_def lower_char_def)
qed

section \<open>Search rule\<close>












section \<open>Errors write nothing\<close>

lemma or_now_advanced:
  assumes "or_now t w = (s, w')"
  shows "\<exists>k. w' = w\<lparr>ticks := ticks w + k\<rparr>"
proof (cases "w' = w")
  case True
  then have "w' = w\<lparr>ticks := ticks w + 0\<rparr>" by simp
  then show ?thesis by blast
next
  case False
  with assms have "w' = w\<lparr>ticks := ticks w + 1\<rparr>"
    by (auto simp: or_now_def now_def split: option.splits if_splits)
  then show ?thesis by blast
qed

lemma Note_init_advanced:
  assumes "Note_init i t c cat pri tgs st cr up w = (n, w')"
  shows "\<exists>k. w' = w\<lparr>ticks := ticks w + k\<rparr>"
proof -
  obtain cr' w1 where 1: "or_now cr w = (cr', w1)" by (cases "or_now cr w")
  obtain up' w2 where 2: "or_now up w1 = (up', w2)" by (cases "or_now up w1")
  from assms 1 2 have w': "w' = w2" by (simp add: Note_init_def)
  from or_now_advanced [OF 1] obtain k1 where "w1 = w\<lparr>ticks := ticks w + k1\<rparr>" ..
  moreover from or_now_advanced [OF 2] obtain k2 where "w2 = w1\<lparr>ticks := ticks w1 + k2\<rparr>" ..
  ultimately have "w' = w\<lparr>ticks := ticks w + (k1 + k2)\<rparr>"
    using w' by (simp add: add.assoc)
  then show ?thesis by blast
qed

lemma from_dict_advanced:
  assumes "from_dict d w = (r, w')"
  shows "\<exists>k. w' = w\<lparr>ticks := ticks w + k\<rparr>"
proof (cases "w' = w")
  case True
  then have "w' = w\<lparr>ticks := ticks w + 0\<rparr>" by simp
  then show ?thesis by blast
next
  case False
  with assms show ?thesis
    by (auto simp: from_dict_def split: option.splits prod.splits intro: Note_init_advanced)
qed

lemma from_dicts_advanced:
  "from_dicts ds w = (r, w') \<Longrightarrow> \<exists>k. w' = w\<lparr>ticks := ticks w + k\<rparr>"
proof (induction ds arbitrary: w r w')
  case Nil
  then have "w' = w\<lparr>ticks := ticks w + 0\<rparr>" by simp
  then show ?case by blast
next
  case (Cons d ds)
  obtain r1 w1 where 1: "from_dict d w = (r1, w1)" by (cases "from_dict d w")
  from from_dict_advanced [OF 1] obtain k1 where k1: "w1 = w\<lparr>ticks := ticks w + k1\<rparr>" ..
  show ?case
  proof (cases r1)
    case (Inl e)
    with Cons.prems 1 have "w' = w1" by simp
    with k1 show ?thesis by blast
  next
    case (Inr n)
    obtain r2 w2 where 2: "from_dicts ds w1 = (r2, w2)" by (cases "from_dicts ds w1")
    from Cons.IH [OF 2] obtain k2 where k2: "w2 = w1\<lparr>ticks := ticks w1 + k2\<rparr>" ..
    from Cons.prems 1 2 Inr have "w' = w2" by (cases r2) simp_all
    with k1 k2 have "w' = w\<lparr>ticks := ticks w + (k1 + k2)\<rparr>"
      by (simp add: add.assoc)
    then show ?thesis by blast
  qed
qed

lemma load_notes_advanced:
  assumes "load_notes w = (r, w')"
  shows "\<exists>k. w' = (ensure_file_exists w)\<lparr>ticks := ticks w + k\<rparr>"
proof -
  let ?w0 = "ensure_file_exists w"
  have t0: "ticks ?w0 = ticks w" by (simp add: ensure_file_exists_def)
  show ?thesis
  proof (cases "backing_file ?w0")
    case (JSONArray ds)
    obtain r1 w1 where 1: "from_dicts ds ?w0 = (r1, w1)" by (cases "from_dicts ds ?w0")
    from from_dicts_advanced [OF 1] t0 obtain k where k: "w1 = ?w0\<lparr>ticks := ticks w + k\<rparr>"
      by auto
    from assms JSONArray 1 have "w' = w1"
      by (auto simp: load_notes_def Let_def split: sum.splits error.splits)
    with k show ?thesis by blast
  next
    case Absent
    with assms have "w' = ?w0\<lparr>ticks := ticks w + 0\<rparr>"
      by (simp add: load_notes_def Let_def t0 [symmetric])
    then show ?thesis by blast
  next
    case Undecodable
    with assms have "w' = ?w0\<lparr>ticks := ticks w + 0\<rparr>"
      by (simp add: load_notes_def Let_def t0 [symmetric])
    then show ?thesis by blast
  qed
qed

lemma load_notes_file:
  assumes "load_notes w = (r, w')"
  shows "backing_file w' = persisted w"
  using load_notes_advanced [OF assms] by (auto simp: persisted_def)

lemma persisted_idem: "backing_file w' = persisted w \<Longrightarrow> persisted w' = persisted w"
  by (simp add: persisted_def ensure_file_exists_def)

lemma persisted_present: "backing_file w \<noteq> Absent \<Longrightarrow> persisted w = backing_file w"
  by (simp add: persisted_def ensure_file_exists_def)

lemma add_note_error_file:
  assumes "add_note ttl cnt cat_s pri_s tgs w = (Inr m, w')"
    and "is_validation_error m \<or> is_not_found m"
  shows "backing_file w' = persisted w"
proof -
  obtain r w1 where l: "load_notes w = (r, w1)" by (cases "load_notes w")
  from assms l have "w' = w1"
    by (auto simp: add_note_def split: sum.splits option.splits prod.splits)
  with load_notes_file [OF l] show ?thesis by simp
qed

lemma list_notes_file:
  assumes "list_notes cat_f pri_f st_f sc w = (r, w')"
  shows "backing_file w' = persisted w"
proof -
  obtain r1 w1 where l: "load_notes w = (r1, w1)" by (cases "load_notes w")
  from assms l have "w' = w1"
    by (auto simp: list_notes_def Let_def split: sum.splits if_splits)
  with load_notes_file [OF l] show ?thesis by simp
qed

lemma search_notes_file:
  assumes "search_notes t scope w = (r, w')"
  shows "backing_file w' = persisted w"
proof -
  obtain r1 w1 where l: "load_notes w = (r1, w1)" by (cases "load_notes w")
  from assms l have "w' = w1"
    by (auto simp: search_notes_def Let_def split: sum.splits if_splits)
  with load_notes_file [OF l] show ?thesis by simp
qed

lemma delete_note_error_file:
  assumes "delete_note nid w = (Inr m, w')"
    and "is_validation_error m \<or> is_not_found m"
  shows "backing_file w' = persisted w"
proof -
  obtain r w1 where l: "load_notes w = (r, w1)" by (cases "load_notes w")
  from assms l have "w' = w1"
    by (auto simp: delete_note_def split: sum.splits option.splits)
  with load_notes_file [OF l] show ?thesis by simp
qed

lemma archive_note_error_file:
  assumes "archive_note nid w = (Inr m, w')"
    and "is_validation_error m \<or> is_not_found m"
  shows "backing_file w' = persisted w"
proof -
  obtain r w1 where l: "load_notes w = (r, w1)" by (cases "load_notes w")
  from assms l have "w' = w1"
    by (auto simp: archive_note_def Let_def split: sum.splits option.splits if_splits prod.splits)
  with load_notes_file [OF l] show ?thesis by simp
qed

lemma edit_note_error_file:
  assumes "edit_note nid ttl cnt cat_s pri_s tgs w = (Inr m, w')"
    and "is_validation_error m \<or> is_not_found m"
  shows "backing_file w' = persisted w"
proof -
  obtain r w1 where l: "load_notes w = (r, w1)" by (cases "load_notes w")
  from assms l have "w' = w1"
    by (auto simp: edit_note_def Let_def split: sum.splits option.splits if_splits prod.splits)
  with load_notes_file [OF l] show ?thesis by simp
qed

text \<open>
  Claim C8.  Whenever a call of the command layer returns a validation error (an
  unknown category, priority or status given to add, list or edit) or a not-found text
  (delete, archive or edit with an id that no note has), nothing is written: the
  persisted collection after the call is the one before it, and a backing file that
  existed before the call is unchanged.
\<close>

theorem errors_write_nothing:
  assumes "run cmd w = (Inr m, w')" and "is_validation_error m \<or> is_not_found m"
  shows "persisted w' = persisted w
         \<and> (backing_file w \<noteq> Absent \<longrightarrow> backing_file w' = backing_file w)"
proof -
  have "backing_file w' = persisted w"
    using assms
    by (cases cmd)
       (auto intro: add_note_error_file list_notes_file search_notes_file
          delete_note_error_file archive_note_error_file edit_note_error_file)
  then show ?thesis
    by (simp add: persisted_idem persisted_present)
qed

lemma example_delete_missing:
  "run (Delete 999) (example_world example_file)
   = (Inr (NoteNotFound 999), example_world example_file)"
  by (simp add: delete_note_def load_example example_notes_def note1_def note2_def note3_def)

lemma example_add_invalid:
  "run (Add ''Buy milk'' ''2% milk'' ''invalid-category'' ''low'' None) (example_world Absent)
   = (Inr (InvalidCategory ''invalid-category'' valid_categories),
      example_world (JSONArray []))"
  by (simp add: add_note_def load_notes_def ensure_file_exists_def example_world_def
      NoteCategory_of_def NoteCategory_members_def lower_def lower_char_def)

theorem errors_write_nothing_witness:
  "fst (run (Delete 999) (example_world example_file)) = Inr (NoteNotFound 999)
   \<and> is_not_found (NoteNotFound 999)
   \<and> backing_file (snd (run (Delete 999) (example_world example_file))) = example_file
   \<and> fst (run (Add ''Buy milk'' ''2% milk'' ''invalid-category'' ''low'' None)
          (example_world Absent))
       = Inr (InvalidCategory ''invalid-category'' valid_categories)
   \<and> is_validation_error (InvalidCategory ''invalid-category'' valid_categories)
   \<and> persisted (snd (run (Add ''Buy milk'' ''2% milk'' ''invalid-category'' ''low'' None)
          (example_world Absent)))
       = persisted (example_world Absent)"
proof -
  have nf: "is_validation_error (NoteNotFound 999) \<or> is_not_found (NoteNotFound 999)"
    by simp
  have ve: "is_validation_error (InvalidCategory ''invalid-category'' valid_categories)
            \<or> is_not_found (InvalidCategory ''invalid-category'' valid_categories)"
    by simp
  have ex: "backing_file (example_world example_file) \<noteq> Absent"
    by (simp add: example_world_sel example_file_def)
  from errors_write_nothing [OF example_delete_missing nf]
    errors_write_nothing [OF example_add_invalid ve] ex
  show ?thesis
    by (simp add: example_delete_missing example_add_invalid example_world_sel
        del: run.simps)
qed

section \<open>Editing without fields\<close>

lemma first_index_Some:
  "first_index P xs = Some i \<Longrightarrow> i < length xs \<and> P (xs ! i) \<and> (\<forall>j<i. \<not> P (xs ! j))"
proof (induction xs arbitrary: i)
  case Nil
  then show ?case by simp
next
  case (Cons x xs)
  show ?case
  proof (cases "P x")
    case True
    with Cons.prems show ?thesis by simp
  next
    case False
    with Cons.prems obtain k where k: "first_index P xs = Some k" and i: "i = Suc k"
      by auto
    from Cons.IH [OF k] False i show ?thesis
      by (auto simp: nth_Cons split: nat.splits)
  qed
qed

lemma first_index_None: "first_index P xs = None \<longleftrightarrow> (\<forall>x \<in> set xs. \<not> P x)"
  by (induction xs) auto

lemma update_no_fields:
  "update None None None None None n w
   = (n\<lparr>updated_at := clock w (ticks w)\<rparr>, w\<lparr>ticks := Suc (ticks w)\<rparr>)"
  by (simp add: update_def now_def)

text \<open>
  Claim C4.  For a note id that exists in the loaded collection, \<open>edit_note\<close> with no
  optional field supplied saves the collection in which the first note with that id has
  its \<open>updated_at\<close> replaced by the reading of the clock and is otherwise unchanged
  (id, title, content, category, priority, tags, status and \<open>created_at\<close> stay as they
  were), and in which every other note is unchanged; the new \<open>updated_at\<close> is strictly
  greater than the old one whenever the clock has advanced past the old one.
\<close>

theorem edit_note_no_fields:
  assumes "load_notes w = (Inr ns, w1)"
    and "first_index (\<lambda>n. note_id n = nid) ns = Some i"
  shows "edit_note nid None None None None None w
         = (Inr (NoteUpdated nid (title (ns ! i))),
            save_notes (ns[i := (ns ! i)\<lparr>updated_at := clock w1 (ticks w1)\<rparr>])
              (w1\<lparr>ticks := Suc (ticks w1)\<rparr>))
         \<and> i < length ns \<and> note_id (ns ! i) = nid
         \<and> (updated_at (ns ! i) < clock w1 (ticks w1) \<longrightarrow>
              updated_at (ns ! i)
                < updated_at (ns[i := (ns ! i)\<lparr>updated_at := clock w1 (ticks w1)\<rparr>] ! i))"
proof -
  from first_index_Some [OF assms(2)] have i: "i < length ns" "note_id (ns ! i) = nid"
    by simp_all
  have "edit_note nid None None None None None w
         = (Inr (NoteUpdated nid (title (ns ! i))),
            save_notes (ns[i := (ns ! i)\<lparr>updated_at := clock w1 (ticks w1)\<rparr>])
              (w1\<lparr>ticks := Suc (ticks w1)\<rparr>))"
    using assms
    by (simp add: edit_note_def edit_category_def edit_priority_def update_no_fields)
  with i show ?thesis by simp
qed

lemma example_first_index: "first_index (\<lambda>n. note_id n = 3) example_notes = Some 2"
  by (simp add: example_notes_def note1_def note2_def note3_def)

lemma example_clock_0: "example_clock 0 = ''2024-01-01T10:00:00.''"
  by (simp add: example_clock_def)

theorem edit_note_no_fields_witness:
  "fst (load_notes (example_world example_file)) = Inr example_notes
   \<and> first_index (\<lambda>n. note_id n = 3) example_notes = Some 2
   \<and> fst (edit_note 3 None None None None None (example_world example_file))
       = Inr (NoteUpdated 3 ''Work plan'')
   \<and> backing_file (snd (edit_note 3 None None None None None (example_world example_file)))
       = JSONArray (map to_dict [note1, note2, note3\<lparr>updated_at := ''2024-01-01T10:00:00.''\<rparr>])
   \<and> updated_at note3 < ''2024-01-01T10:00:00.''"
proof -
  have u: "updated_at note3 < ''2024-01-01T10:00:00.''"
    by (simp add: note3_def)
  have n: "example_notes ! 2 = note3"
    "example_notes[2 := n] = [note1, note2, n]" for n
    by (simp_all add: example_notes_def)
  have t: "title note3 = ''Work plan''"
    by (simp add: note3_def)
  from edit_note_no_fields [OF load_example example_first_index] u
  show ?thesis
    by (simp add: load_example example_first_index example_world_sel example_clock_0 n t
        save_notes_def)
qed

section \<open>Identifiers assigned by add\<close>

lemma Note_init_fields:
  "note_id (fst (Note_init i t c cat pri tgs st cr up w)) = i"
  "title (fst (Note_init i t c cat pri tgs st cr up w)) = t"
  "content (fst (Note_init i t c cat pri tgs st cr up w)) = c"
  "category (fst (Note_init i t c cat pri tgs st cr up w)) = cat"
  "priority (fst (Note_init i t c cat pri tgs st cr up w)) = pri"
  "status (fst (Note_init i t c cat pri tgs st cr up w)) = st"
  by (simp_all add: Note_init_def split_beta)

lemma from_dict_ids:
  "map_sum (\<lambda>e. e) note_id (fst (from_dict d w)) = map_sum (\<lambda>e. e) note_id (fst (from_dict d w'))"
  by (simp add: from_dict_def split_beta Note_init_fields split: option.splits)

lemma from_dicts_ids:
  "map_sum (\<lambda>e. e) (map note_id) (fst (from_dicts ds w))
   = map_sum (\<lambda>e. e) (map note_id) (fst (from_dicts ds w'))"
proof (induction ds arbitrary: w w')
  case Nil
  show ?case by simp
next
  case (Cons d ds)
  obtain r1 w1 where 1: "from_dict d w = (r1, w1)" by (cases "from_dict d w")
  obtain r1' w1' where p1: "from_dict d w' = (r1', w1')" by (cases "from_dict d w'")
  from from_dict_ids [of d w w'] 1 p1
  have eq: "map_sum (\<lambda>e. e) note_id r1 = map_sum (\<lambda>e. e) note_id r1'" by simp
  show ?case
  proof (cases r1)
    case (Inl e)
    with eq have "r1' = Inl e" by (cases r1') simp_all
    with Inl 1 p1 show ?thesis by simp
  next
    case (Inr n)
    with eq obtain n' where r1': "r1' = Inr n'" and n': "note_id n' = note_id n"
      by (cases r1') simp_all
    obtain r2 w2 where 2: "from_dicts ds w1 = (r2, w2)" by (cases "from_dicts ds w1")
    obtain r2' w2' where p2: "from_dicts ds w1' = (r2', w2')" by (cases "from_dicts ds w1'")
    from Cons.IH [of w1 w1'] 2 p2
    have "map_sum (\<lambda>e. e) (map note_id) r2 = map_sum (\<lambda>e. e) (map note_id) r2'" by simp
    with Inr r1' n' 1 p1 2 p2 show ?thesis
      by (cases r2; cases r2') simp_all
  qed
qed

lemma load_notes_ids:
  assumes "persisted w = persisted w'"
  shows "map_sum (\<lambda>e. e) (map note_id) (fst (load_notes w))
         = map_sum (\<lambda>e. e) (map note_id) (fst (load_notes w'))"
proof (cases "persisted w")
  case Absent
  with assms show ?thesis
    by (simp add: load_notes_def Let_def persisted_def)
next
  case Undecodable
  with assms show ?thesis
    by (simp add: load_notes_def Let_def persisted_def)
next
  case (JSONArray ds)
  let ?a = "from_dicts ds (ensure_file_exists w)" and ?b = "from_dicts ds (ensure_file_exists w')"
  have eq: "map_sum (\<lambda>e. e) (map note_id) (fst ?a) = map_sum (\<lambda>e. e) (map note_id) (fst ?b)"
    by (rule from_dicts_ids)
  have f: "backing_file (ensure_file_exists w) = JSONArray ds"
    "backing_file (ensure_file_exists w') = JSONArray ds"
    using JSONArray assms by (simp_all add: persisted_def)
  have a: "fst (load_notes w) = (case fst ?a of Inl KeyError \<Rightarrow> Inr [] | r \<Rightarrow> r)"
    by (simp add: load_notes_def Let_def f split: prod.splits sum.splits error.splits)
  have b: "fst (load_notes w') = (case fst ?b of Inl KeyError \<Rightarrow> Inr [] | r \<Rightarrow> r)"
    by (simp add: load_notes_def Let_def f split: prod.splits sum.splits error.splits)
  from eq show ?thesis
    unfolding a b
    by (cases "fst ?a"; cases "fst ?b") (auto split: error.splits)
qed

lemma collection_ids_persisted:
  "persisted w = persisted w' \<Longrightarrow> collection_ids w = collection_ids w'"
  using load_notes_ids [of w w']
  by (cases "fst (load_notes w)"; cases "fst (load_notes w')")
     (simp_all add: collection_ids_def collection_def)

lemma load_notes_twice:
  assumes "load_notes w = (Inr ns, w1)"
  shows "\<exists>ns' w2. load_notes w1 = (Inr ns', w2) \<and> map note_id ns' = map note_id ns"
proof -
  have "persisted w1 = persisted w"
    using load_notes_file [OF assms] by (rule persisted_idem)
  from load_notes_ids [OF this] assms
  have "map_sum (\<lambda>e. e) (map note_id) (fst (load_notes w1)) = Inr (map note_id ns)"
    by simp
  then obtain ns' where "fst (load_notes w1) = Inr ns'" and "map note_id ns' = map note_id ns"
    by (cases "fst (load_notes w1)") auto
  then show ?thesis
    by (cases "load_notes w1") auto
qed

lemma get_next_id_after_load:
  assumes "load_notes w = (Inr ns, w1)"
  shows "\<exists>w2. get_next_id w1
           = (Inr (if ns = [] then 1 else Max (set (map note_id ns)) + 1), w2)"
proof -
  from load_notes_twice [OF assms] obtain ns' w2
    where l: "load_notes w1 = (Inr ns', w2)" and ids: "map note_id ns' = map note_id ns"
    by blast
  from ids have "ns' = [] \<longleftrightarrow> ns = []"
    by (metis map_is_Nil_conv)
  with l ids show ?thesis
    by (simp add: get_next_id_def)
qed

lemma next_id_fresh:
  assumes "i = (if ns = [] then 1 else Max (set (map note_id ns)) + 1)"
  shows "i \<notin> set (map note_id ns)"
proof
  assume m: "i \<in> set (map note_id ns)"
  then have "ns \<noteq> []" by auto
  with assms have i: "i = Max (set (map note_id ns)) + 1" by simp
  from m have "i \<le> Max (set (map note_id ns))" by (intro Max_ge) auto
  with i show False by simp
qed

lemma add_note_success:
  assumes "load_notes w = (Inr ns, w1)"
    and "NoteCategory_of (lower cat_s) = Some cat"
    and "NotePriority_of (lower pri_s) = Some pri"
  shows "\<exists>new_note w'.
           add_note ttl cnt cat_s pri_s tgs w = (Inr (NoteAdded (note_id new_note) ttl), w')
           \<and> note_id new_note = (if ns = [] then 1 else Max (set (map note_id ns)) + 1)
           \<and> backing_file w' = JSONArray (map to_dict (ns @ [new_note]))"
proof -
  from get_next_id_after_load [OF assms(1)] obtain w2
    where g: "get_next_id w1
              = (Inr (if ns = [] then 1 else Max (set (map note_id ns)) + 1), w2)"
    by blast
  let ?i = "if ns = [] then 1 else Max (set (map note_id ns)) + 1"
  let ?init = "Note_init ?i ttl cnt cat pri (Some (case tgs of None \<Rightarrow> [] | Some ts \<Rightarrow> ts))
                 ACTIVE None None w2"
  have "add_note ttl cnt cat_s pri_s tgs w
        = (Inr (NoteAdded (note_id (fst ?init)) ttl), save_notes (ns @ [fst ?init]) (snd ?init))"
    using assms g by (simp add: add_note_def split_beta)
  moreover have "note_id (fst ?init) = ?i"
    by (rule Note_init_fields)
  moreover have "backing_file (save_notes (ns @ [fst ?init]) (snd ?init))
                 = JSONArray (map to_dict (ns @ [fst ?init]))"
    by (simp add: save_notes_def)
  ultimately show ?thesis by blast
qed

lemma from_dict_to_dict_id:
  "\<exists>n'. fst (from_dict (to_dict n) w) = Inr n' \<and> note_id n' = note_id n"
  by (simp add: from_dict_def to_dict_def NoteCategory_of_value NotePriority_of_value
      NoteStatus_of_value split_beta Note_init_fields)

lemma from_dicts_to_dict_ids:
  "map_sum (\<lambda>e. e) (map note_id) (fst (from_dicts (map to_dict xs) w)) = Inr (map note_id xs)"
proof (induction xs arbitrary: w)
  case Nil
  show ?case by simp
next
  case (Cons x xs)
  from from_dict_to_dict_id [of x w] obtain n' w1
    where 1: "from_dict (to_dict x) w = (Inr n', w1)" and n': "note_id n' = note_id x"
    by (cases "from_dict (to_dict x) w") auto
  from Cons.IH [of w1] obtain ns' w2
    where 2: "from_dicts (map to_dict xs) w1 = (Inr ns', w2)"
      and ns': "map note_id ns' = map note_id xs"
    by (cases "from_dicts (map to_dict xs) w1"; cases "fst (from_dicts (map to_dict xs) w1)")
       auto
  from 1 2 n' ns' show ?case by simp
qed

lemma collection_ids_saved:
  assumes "backing_file w = JSONArray (map to_dict xs)"
  shows "collection_ids w = map note_id xs"
proof -
  let ?r = "from_dicts (map to_dict xs) w"
  from from_dicts_to_dict_ids [of xs w] obtain ns'
    where r: "fst ?r = Inr ns'" and ids: "map note_id ns' = map note_id xs"
    by (cases "fst ?r") auto
  from assms r have "fst (load_notes w) = Inr ns'"
    by (cases ?r) (simp add: load_notes_def ensure_file_exists_def)
  with ids show ?thesis
    by (simp add: collection_ids_def collection_def)
qed

lemma collection_ids_loaded:
  "load_notes w = (Inr ns, w1) \<Longrightarrow> collection_ids w = map note_id ns"
  by (simp add: collection_ids_def collection_def)

lemma add_note_ids_distinct:
  assumes "distinct (collection_ids w)"
  shows "distinct (collection_ids (snd (add_note ttl cnt cat_s pri_s tgs w)))"
proof -
  obtain r w1 where l: "load_notes w = (r, w1)" by (cases "load_notes w")
  have same: "collection_ids w1 = collection_ids w"
    using load_notes_file [OF l] by (intro collection_ids_persisted persisted_idem)
  show ?thesis
  proof (cases r)
    case (Inl e)
    with l have "snd (add_note ttl cnt cat_s pri_s tgs w) = w1"
      by (simp add: add_note_def)
    with same assms show ?thesis by simp
  next
    case (Inr ns)
    with l have ln: "load_notes w = (Inr ns, w1)" by simp
    show ?thesis
    proof (cases "NoteCategory_of (lower cat_s)")
      case None
      with ln have "snd (add_note ttl cnt cat_s pri_s tgs w) = w1"
        by (simp add: add_note_def)
      with same assms show ?thesis by simp
    next
      case (Some cat)
      show ?thesis
      proof (cases "NotePriority_of (lower pri_s)")
        case None
        with ln Some have "snd (add_note ttl cnt cat_s pri_s tgs w) = w1"
          by (simp add: add_note_def)
        with same assms show ?thesis by simp
      next
        case pri: (Some pri)
        from add_note_success [OF ln Some pri, of ttl cnt tgs] obtain new_note w'
          where a: "add_note ttl cnt cat_s pri_s tgs w
                    = (Inr (NoteAdded (note_id new_note) ttl), w')"
            and i: "note_id new_note = (if ns = [] then 1 else Max (set (map note_id ns)) + 1)"
            and f: "backing_file w' = JSONArray (map to_dict (ns @ [new_note]))"
          by blast
        from assms have "distinct (map note_id ns)"
          by (simp add: collection_ids_loaded [OF ln])
        moreover from next_id_fresh [OF i] have "note_id new_note \<notin> set (map note_id ns)" .
        ultimately have "distinct (map note_id (ns @ [new_note]))" by simp
        with a collection_ids_saved [OF f] show ?thesis by simp
      qed
    qed
  qed
qed

lemma run_all_adds_distinct:
  "list_all is_Add cmds \<Longrightarrow> distinct (collection_ids w)
   \<Longrightarrow> distinct (collection_ids (run_all cmds w))"
proof (induction cmds arbitrary: w)
  case Nil
  then show ?case by simp
next
  case (Cons c cs)
  from Cons.prems(1) obtain ttl cnt cat_s pri_s tgs
    where c: "c = Add ttl cnt cat_s pri_s tgs"
    by (cases c) simp_all
  from Cons.prems(2) have "distinct (collection_ids (snd (run c w)))"
    unfolding c by (simp add: add_note_ids_distinct)
  with Cons.IH Cons.prems(1) show ?case by simp
qed

text \<open>
  Claim C2.  A successful \<open>add_note\<close> gives the new note the id one greater than the
  maximum id of the collection loaded immediately before it, or 1 when that collection
  is empty; the id is therefore different from every id already present, and the note
  is appended to the saved collection.  Consequently every sequence of add operations,
  run on a store whose ids are pairwise different (the empty store is one), leaves a
  collection whose ids are pairwise different.
\<close>

theorem add_note_next_id:
  "(load_notes w = (Inr ns, w1) \<and> NoteCategory_of (lower cat_s) = Some cat
      \<and> NotePriority_of (lower pri_s) = Some pri
    \<longrightarrow> (\<exists>new_note w'.
           add_note ttl cnt cat_s pri_s tgs w = (Inr (NoteAdded (note_id new_note) ttl), w')
           \<and> note_id new_note = (if ns = [] then 1 else Max (set (map note_id ns)) + 1)
           \<and> note_id new_note \<notin> set (map note_id ns)
           \<and> backing_file w' = JSONArray (map to_dict (ns @ [new_note]))))
   \<and> (list_all is_Add cmds \<and> distinct (collection_ids w)
        \<longrightarrow> distinct (collection_ids (run_all cmds w)))"
proof (intro conjI impI)
  assume a: "load_notes w = (Inr ns, w1) \<and> NoteCategory_of (lower cat_s) = Some cat
      \<and> NotePriority_of (lower pri_s) = Some pri"
  then have l: "load_notes w = (Inr ns, w1)" and c: "NoteCategory_of (lower cat_s) = Some cat"
    and p: "NotePriority_of (lower pri_s) = Some pri"
    by simp_all
  from add_note_success [OF l c p, of ttl cnt tgs] next_id_fresh [of _ ns]
  show "\<exists>new_note w'.
           add_note ttl cnt cat_s pri_s tgs w = (Inr (NoteAdded (note_id new_note) ttl), w')
           \<and> note_id new_note = (if ns = [] then 1 else Max (set (map note_id ns)) + 1)
           \<and> note_id new_note \<notin> set (map note_id ns)
           \<and> backing_file w' = JSONArray (map to_dict (ns @ [new_note]))"
    by blast
next
  assume "list_all is_Add cmds \<and> distinct (collection_ids w)"
  then show "distinct (collection_ids (run_all cmds w))"
    by (simp add: run_all_adds_distinct)
qed

lemma example_max_id: "Max (note_id ` set example_notes) = 3" "example_notes \<noteq> []"
  by (simp_all add: example_notes_def note1_def note2_def note3_def)

lemma example_enums:
  "NoteCategory_of (lower ''Work'') = Some WORK" "NotePriority_of (lower ''HIGH'') = Some HIGH"
  by (simp_all add: NoteCategory_of_def NoteCategory_members_def NotePriority_of_def
      NotePriority_members_def lower_def lower_char_def)

lemma load_empty_store:
  "load_notes (example_world Absent) = (Inr [], example_world (JSONArray []))"
  by (simp add: load_notes_def ensure_file_exists_def example_world_def)

lemma example_ids_distinct: "distinct (collection_ids (example_world example_file))"
  by (simp add: collection_ids_loaded [OF load_example] example_notes_def note1_def note2_def
      note3_def)

theorem add_note_next_id_witness:
  "fst (load_notes (example_world example_file)) = Inr example_notes
   \<and> NoteCategory_of (lower ''Work'') = Some WORK
   \<and> NotePriority_of (lower ''HIGH'') = Some HIGH
   \<and> fst (add_note ''Call'' ''Call the bank'' ''Work'' ''HIGH'' None
        (example_world example_file)) = Inr (NoteAdded 4 ''Call'')
   \<and> fst (add_note ''Call'' ''Call the bank'' ''Work'' ''HIGH'' None
        (example_world Absent)) = Inr (NoteAdded 1 ''Call'')
   \<and> list_all is_Add [Add ''a'' ''b'' ''other'' ''medium'' None,
        Add ''c'' ''d'' ''work'' ''low'' (Some [''x''])]
   \<and> distinct (collection_ids (example_world example_file))
   \<and> distinct (collection_ids (run_all [Add ''a'' ''b'' ''other'' ''medium'' None,
        Add ''c'' ''d'' ''work'' ''low'' (Some [''x''])] (example_world example_file)))"
proof -
  let ?cmds = "[Add ''a'' ''b'' ''other'' ''medium'' None,
        Add ''c'' ''d'' ''work'' ''low'' (Some [''x''])]"
  have adds: "list_all is_Add ?cmds" by simp
  from add_note_next_id [of "example_world example_file" example_notes
      "example_world example_file" "''Work''" WORK "''HIGH''" HIGH "''Call''"
      "''Call the bank''" None ?cmds]
    load_example example_enums adds example_ids_distinct
  have 1: "fst (add_note ''Call'' ''Call the bank'' ''Work'' ''HIGH'' None
        (example_world example_file)) = Inr (NoteAdded 4 ''Call'')"
    and 2: "distinct (collection_ids (run_all ?cmds (example_world example_file)))"
    by (auto simp: example_max_id simp del: run_all.simps)
  from add_note_next_id [of "example_world Absent" "[]"
      "example_world (JSONArray [])" "''Work''" WORK "''HIGH''" HIGH "''Call''"
      "''Call the bank''" None "[]"]
    load_empty_store example_enums
  have 3: "fst (add_note ''Call'' ''Call the bank'' ''Work'' ''HIGH'' None
        (example_world Absent)) = Inr (NoteAdded 1 ''Call'')"
    by auto
  from 1 2 3 adds show ?thesis
    by (simp add: load_example example_enums example_ids_distinct del: run_all.simps)
qed

section \<open>Timestamps\<close>

lemma stamped_has_timestamps: "stamped w n \<Longrightarrow> has_timestamps n"
  by (auto simp: stamped_def has_timestamps_def)

lemma stamped_later:
  assumes "mono (clock w)" and "stamped w n" and "clock w' = clock w" and "ticks w \<le> ticks w'"
  shows "stamped w' n"
proof -
  from assms(1,4) have "clock w (ticks w) \<le> clock w (ticks w')"
    by (rule monoD)
  with assms(2,3) show ?thesis
    by (auto simp: stamped_def)
qed

lemma list_all_stamped_later:
  assumes "mono (clock w)" and "list_all (stamped w) ns" and "clock w' = clock w"
    and "ticks w \<le> ticks w'"
  shows "list_all (stamped w') ns"
  using assms by (auto simp: list_all_iff intro: stamped_later)

lemma store_ok_load:
  assumes "store_ok w"
  shows "\<exists>ns. load_notes w = (Inr ns, ensure_file_exists w) \<and> list_all (stamped w) ns
          \<and> store_ok (ensure_file_exists w)"
proof (cases "backing_file w")
  case Absent
  then show ?thesis
    by (simp add: load_notes_def ensure_file_exists_def store_ok_def)
next
  case Undecodable
  then show ?thesis
    by (simp add: load_notes_def ensure_file_exists_def store_ok_def)
next
  case (JSONArray ds)
  with assms obtain ns where ds: "ds = map to_dict ns" and st: "list_all (stamped w) ns"
    by (auto simp: store_ok_def)
  from st have "list_all has_timestamps ns"
    by (auto simp: list_all_iff intro: stamped_has_timestamps)
  with JSONArray ds have "load_notes w = (Inr ns, w)"
    by (intro load_notes_JSONArray) simp_all
  moreover from JSONArray have "ensure_file_exists w = w"
    by (simp add: ensure_file_exists_def)
  ultimately show ?thesis using st assms by auto
qed

lemma ensure_file_exists_sel:
  "clock (ensure_file_exists w) = clock w" "ticks (ensure_file_exists w) = ticks w"
  "ensure_file_exists (ensure_file_exists w) = ensure_file_exists w"
  by (simp_all add: ensure_file_exists_def)

lemma save_notes_sel:
  "clock (save_notes ns w) = clock w" "ticks (save_notes ns w) = ticks w"
  "backing_file (save_notes ns w) = JSONArray (map to_dict ns)"
  by (simp_all add: save_notes_def ensure_file_exists_def)

lemma store_ok_save:
  assumes "list_all (stamped w) ns"
  shows "store_ok (save_notes ns w)"
proof -
  have "stamped (save_notes ns w) = stamped w"
    by (rule ext) (simp add: stamped_def save_notes_sel)
  with assms show ?thesis
    by (auto simp: store_ok_def save_notes_sel)
qed

lemma store_ok_collection:
  assumes "store_ok w"
  shows "\<forall>n \<in> set (collection w). created_at n \<le> updated_at n"
proof -
  from store_ok_load [OF assms] obtain ns
    where "load_notes w = (Inr ns, ensure_file_exists w)" and "list_all (stamped w) ns"
    by blast
  then show ?thesis
    by (auto simp: collection_def list_all_iff stamped_def)
qed

lemma touch_stamped:
  assumes "mono (clock w)" and "stamped w n" and "created_at n' = created_at n"
    and "updated_at n' = clock w (ticks w)" and "clock w' = clock w"
    and "ticks w' = Suc (ticks w)"
  shows "stamped w' n'"
proof -
  from assms(1) have "clock w (ticks w) \<le> clock w (Suc (ticks w))"
    by (rule monoD) simp
  with assms(2-) show ?thesis
    by (auto simp: stamped_def)
qed

lemma Note_init_now:
  "Note_init i t c cat pri tgs st None None w
   = (\<lparr>note_id = i, title = t, content = c, category = cat, priority = pri,
        tags = (case tgs of None \<Rightarrow> [] | Some ts \<Rightarrow> ts), status = st,
        created_at = clock w (ticks w), updated_at = clock w (Suc (ticks w))\<rparr>,
      w\<lparr>ticks := Suc (Suc (ticks w))\<rparr>)"
  by (simp add: Note_init_def or_now_def now_def)

lemma new_note_stamped:
  assumes "mono (clock w)" and "\<forall>k. clock w k \<noteq> []"
    and "Note_init i t c cat pri tgs st None None w = (n, w')"
  shows "stamped w' n"
proof -
  from assms(1) have "clock w (ticks w) \<le> clock w (Suc (ticks w))"
    "clock w (Suc (ticks w)) \<le> clock w (Suc (Suc (ticks w)))"
    by (auto intro: monoD)
  with assms(2,3) show ?thesis
    by (auto simp: Note_init_now stamped_def)
qed

lemma update_result:
  assumes "update t c cat pri tgs n w = (n', w')"
  shows "created_at n' = created_at n \<and> updated_at n' = clock w (ticks w)
         \<and> w' = w\<lparr>ticks := Suc (ticks w)\<rparr>"
  using assms
  by (auto simp: update_def now_def Let_def split: option.splits)

lemma list_notes_world: "snd (list_notes cat_f pri_f st_f sc w) = snd (load_notes w)"
  by (cases "load_notes w")
     (auto simp: list_notes_def Let_def split: sum.splits)

lemma search_notes_world: "snd (search_notes t scope w) = snd (load_notes w)"
  by (cases "load_notes w")
     (auto simp: search_notes_def Let_def split: sum.splits)

lemma add_note_preserves:
  assumes "mono (clock w)" and "\<forall>k. clock w k \<noteq> []" and "store_ok w"
  shows "clock (snd (add_note ttl cnt cat_s pri_s tgs w)) = clock w
         \<and> store_ok (snd (add_note ttl cnt cat_s pri_s tgs w))"
proof -
  let ?w0 = "ensure_file_exists w"
  from store_ok_load [OF assms(3)] obtain ns
    where l: "load_notes w = (Inr ns, ?w0)" and st: "list_all (stamped w) ns"
      and ok0: "store_ok ?w0"
    by blast
  from store_ok_load [OF ok0] obtain ns0 where l0: "load_notes ?w0 = (Inr ns0, ?w0)"
    by (auto simp: ensure_file_exists_sel)
  show ?thesis
  proof (cases "NoteCategory_of (lower cat_s)")
    case None
    with l ok0 show ?thesis by (simp add: add_note_def ensure_file_exists_sel)
  next
    case (Some cat)
    show ?thesis
    proof (cases "NotePriority_of (lower pri_s)")
      case None
      with l Some ok0 show ?thesis by (simp add: add_note_def ensure_file_exists_sel)
    next
      case pri: (Some pri)
      obtain i where g: "get_next_id ?w0 = (Inr i, ?w0)"
        using l0 by (simp add: get_next_id_def)
      obtain n w3
        where n: "Note_init i ttl cnt cat pri
                    (Some (case tgs of None \<Rightarrow> [] | Some ts \<Rightarrow> ts)) ACTIVE None None ?w0
                  = (n, w3)"
        by (cases "Note_init i ttl cnt cat pri
                    (Some (case tgs of None \<Rightarrow> [] | Some ts \<Rightarrow> ts)) ACTIVE None None ?w0")
      from n have w3: "clock w3 = clock w" "ticks w \<le> ticks w3"
        by (auto simp: Note_init_now ensure_file_exists_sel)
      have "stamped w3 n"
        using n assms(1,2) by (intro new_note_stamped) (simp_all add: ensure_file_exists_sel)
      moreover have "list_all (stamped w3) ns"
        using assms(1) st w3 by (rule list_all_stamped_later)
      ultimately have "list_all (stamped w3) (ns @ [n])" by simp
      then have "store_ok (save_notes (ns @ [n]) w3)" by (rule store_ok_save)
      moreover have "snd (add_note ttl cnt cat_s pri_s tgs w) = save_notes (ns @ [n]) w3"
        using l Some pri g n by (simp add: add_note_def)
      ultimately show ?thesis
        using w3 by (simp add: save_notes_sel)
    qed
  qed
qed

lemma list_all_update:
  "list_all P xs \<Longrightarrow> P y \<Longrightarrow> list_all P (xs[i := y])"
  by (auto simp: list_all_iff dest!: set_update_subset_insert [THEN subsetD])

lemma list_all_remove:
  "list_all P xs \<Longrightarrow> list_all P (take i xs @ drop (Suc i) xs)"
  by (auto simp: list_all_iff dest: in_set_takeD in_set_dropD)

lemma read_only_preserves:
  assumes "store_ok w" and "w' = snd (load_notes w)"
  shows "clock w' = clock w \<and> store_ok w'"
proof -
  from store_ok_load [OF assms(1)] obtain ns
    where "load_notes w = (Inr ns, ensure_file_exists w)"
      and "store_ok (ensure_file_exists w)"
    by blast
  with assms(2) show ?thesis by (simp add: ensure_file_exists_sel)
qed

lemma delete_note_preserves:
  assumes "store_ok w"
  shows "clock (snd (delete_note nid w)) = clock w \<and> store_ok (snd (delete_note nid w))"
proof -
  let ?w0 = "ensure_file_exists w"
  from store_ok_load [OF assms] obtain ns
    where l: "load_notes w = (Inr ns, ?w0)" and st: "list_all (stamped w) ns"
      and ok0: "store_ok ?w0"
    by blast
  have st0: "stamped ?w0 = stamped w"
    by (rule ext) (simp add: stamped_def ensure_file_exists_sel)
  show ?thesis
  proof (cases "first_index (\<lambda>n. note_id n = nid) ns")
    case None
    with l ok0 show ?thesis by (simp add: delete_note_def ensure_file_exists_sel)
  next
    case (Some i)
    from st have "list_all (stamped ?w0) (take i ns @ drop (Suc i) ns)"
      unfolding st0 by (rule list_all_remove)
    then have "store_ok (save_notes (take i ns @ drop (Suc i) ns) ?w0)"
      by (rule store_ok_save)
    with l Some show ?thesis
      by (simp add: delete_note_def save_notes_sel ensure_file_exists_sel)
  qed
qed

lemma archive_note_preserves:
  assumes "mono (clock w)" and "store_ok w"
  shows "clock (snd (archive_note nid w)) = clock w \<and> store_ok (snd (archive_note nid w))"
proof -
  let ?w0 = "ensure_file_exists w"
  from store_ok_load [OF assms(2)] obtain ns
    where l: "load_notes w = (Inr ns, ?w0)" and st: "list_all (stamped w) ns"
      and ok0: "store_ok ?w0"
    by blast
  show ?thesis
  proof (cases "first_index (\<lambda>n. note_id n = nid) ns")
    case None
    with l ok0 show ?thesis by (simp add: archive_note_def ensure_file_exists_sel)
  next
    case (Some i)
    show ?thesis
    proof (cases "status (ns ! i) = ARCHIVED")
      case True
      with l Some ok0 show ?thesis by (simp add: archive_note_def ensure_file_exists_sel)
    next
      case False
      let ?w2 = "?w0\<lparr>ticks := Suc (ticks ?w0)\<rparr>"
      let ?n = "(ns ! i)\<lparr>status := ARCHIVED, updated_at := clock ?w0 (ticks ?w0)\<rparr>"
      from first_index_Some [OF Some] have "ns ! i \<in> set ns" by simp
      with st have "stamped w (ns ! i)" by (simp add: list_all_iff)
      with assms(1) have "stamped ?w2 ?n"
        by (rule touch_stamped) (simp_all add: ensure_file_exists_sel)
      moreover have "list_all (stamped ?w2) ns"
        using assms(1) st by (rule list_all_stamped_later) (simp_all add: ensure_file_exists_sel)
      ultimately have "list_all (stamped ?w2) (ns[i := ?n])"
        by (intro list_all_update)
      then have "store_ok (save_notes (ns[i := ?n]) ?w2)"
        by (rule store_ok_save)
      moreover have "snd (archive_note nid w) = save_notes (ns[i := ?n]) ?w2"
        using l Some False by (simp add: archive_note_def now_def)
      ultimately show ?thesis
        by (simp add: save_notes_sel ensure_file_exists_sel)
    qed
  qed
qed

lemma edit_note_preserves:
  assumes "mono (clock w)" and "store_ok w"
  shows "clock (snd (edit_note nid ttl cnt cat_s pri_s tgs w)) = clock w
         \<and> store_ok (snd (edit_note nid ttl cnt cat_s pri_s tgs w))"
proof -
  let ?w0 = "ensure_file_exists w"
  from store_ok_load [OF assms(2)] obtain ns
    where l: "load_notes w = (Inr ns, ?w0)" and st: "list_all (stamped w) ns"
      and ok0: "store_ok ?w0"
    by blast
  show ?thesis
  proof (cases "first_index (\<lambda>n. note_id n = nid) ns")
    case None
    with l ok0 show ?thesis by (simp add: edit_note_def ensure_file_exists_sel)
  next
    case (Some i)
    show ?thesis
    proof (cases "edit_category cat_s")
      case (Inl m)
      with l Some ok0 show ?thesis by (simp add: edit_note_def ensure_file_exists_sel)
    next
      case cat: (Inr note_category)
      show ?thesis
      proof (cases "edit_priority pri_s")
        case (Inl m)
        with l Some cat ok0 show ?thesis by (simp add: edit_note_def ensure_file_exists_sel)
      next
        case pri: (Inr note_priority)
        obtain n w2
          where u: "update ttl cnt note_category note_priority tgs (ns ! i) ?w0 = (n, w2)"
          by (cases "update ttl cnt note_category note_priority tgs (ns ! i) ?w0")
        from update_result [OF u]
        have n: "created_at n = created_at (ns ! i)" "updated_at n = clock w (ticks w)"
          and w2: "clock w2 = clock w" "ticks w2 = Suc (ticks w)"
          by (simp_all add: ensure_file_exists_sel)
        from first_index_Some [OF Some] have "ns ! i \<in> set ns" by simp
        with st have "stamped w (ns ! i)" by (simp add: list_all_iff)
        with assms(1) have "stamped w2 n"
          using n w2 by (rule touch_stamped)
        moreover have "list_all (stamped w2) ns"
          using assms(1) st w2(1) by (rule list_all_stamped_later) (simp add: w2)
        ultimately have "list_all (stamped w2) (ns[i := n])"
          by (intro list_all_update)
        then have "store_ok (save_notes (ns[i := n]) w2)"
          by (rule store_ok_save)
        moreover have "snd (edit_note nid ttl cnt cat_s pri_s tgs w) = save_notes (ns[i := n]) w2"
          using l Some cat pri u by (simp add: edit_note_def)
        ultimately show ?thesis
          using w2 by (simp add: save_notes_sel)
      qed
    qed
  qed
qed

lemma run_preserves:
  assumes "mono (clock w)" and "\<forall>k. clock w k \<noteq> []" and "store_ok w"
  shows "clock (snd (run c w)) = clock w \<and> store_ok (snd (run c w))"
proof (cases c)
  case (Add ttl cnt cat_s pri_s tgs)
  with add_note_preserves [OF assms] show ?thesis by simp
next
  case (List_notes cat_f pri_f st_f sc)
  with read_only_preserves [OF assms(3)] show ?thesis by (simp add: list_notes_world)
next
  case (Search t scope)
  with read_only_preserves [OF assms(3)] show ?thesis by (simp add: search_notes_world)
next
  case (Delete nid)
  with delete_note_preserves [OF assms(3)] show ?thesis by simp
next
  case (Archive nid)
  with archive_note_preserves [OF assms(1,3)] show ?thesis by simp
next
  case (Edit nid ttl cnt cat_s pri_s tgs)
  with edit_note_preserves [OF assms(1,3)] show ?thesis by simp
qed

lemma run_all_preserves:
  "mono (clock w) \<Longrightarrow> \<forall>k. clock w k \<noteq> [] \<Longrightarrow> store_ok w \<Longrightarrow> store_ok (run_all cmds w)"
proof (induction cmds arbitrary: w)
  case Nil
  then show ?case by simp
next
  case (Cons c cs)
  from run_preserves [OF Cons.prems, of c]
  have "clock (snd (run c w)) = clock w" and "store_ok (snd (run c w))"
    by simp_all
  with Cons.prems Cons.IH [of "snd (run c w)"] show ?case by simp
qed

text \<open>
  Claim C9.  Let the clock be monotonic and its readings non-empty (as ISO-8601 strings
  are), and start from a store that is empty, or whose notes have non-empty timestamps
  with \<open>created_at\<close> \<open>\<le>\<close> \<open>updated_at\<close> \<open>\<le>\<close> the current reading.  Then after every sequence of
  operations (add, list, search, delete, archive, edit) every note of the collection,
  as \<open>from_dict\<close> reconstructs it from the file, has \<open>created_at\<close> \<open>\<le>\<close> \<open>updated_at\<close> in the
  lexicographic order of strings.
\<close>

theorem created_at_before_updated_at:
  assumes "mono (clock w)" and "\<forall>k. clock w k \<noteq> []" and "store_ok w"
  shows "\<forall>n \<in> set (collection (run_all cmds w)). created_at n \<le> updated_at n"
  using assms by (intro store_ok_collection run_all_preserves)

lemma replicate_le: "i \<le> j \<Longrightarrow> replicate i (c::char) \<le> replicate j c"
proof (induction i arbitrary: j)
  case 0
  show ?case by simp
next
  case (Suc i)
  then obtain j' where "j = Suc j'" and "i \<le> j'" by (cases j) auto
  with Suc.IH show ?case by simp
qed

lemma append_le_mono: "ys \<le> zs \<Longrightarrow> xs @ ys \<le> xs @ (zs::string)"
  by (induction xs) simp_all

lemma example_clock_mono: "mono example_clock"
  by (rule monoI) (simp add: example_clock_def append_le_mono replicate_le)

lemma example_clock_nonempty: "\<forall>k. example_clock k \<noteq> []"
  by (simp add: example_clock_def)

lemma example_store_ok: "store_ok (example_world Absent)"
  by (simp add: store_ok_def example_world_sel)

lemma example_clock_values:
  "example_clock 0 = ''2024-01-01T10:00:00.''"
  "example_clock (Suc 0) = ''2024-01-01T10:00:00.1''"
  "example_clock (Suc (Suc 0)) = ''2024-01-01T10:00:00.11''"
  by (simp_all add: example_clock_def)

lemma milk_add:
  "snd (run (Add ''Buy milk'' ''2% milk, eggs'' ''shopping'' ''low'' (Some [''errand'']))
         (example_world Absent))
   = (example_world (JSONArray [to_dict (milk_note\<lparr>status := ACTIVE,
         updated_at := ''2024-01-01T10:00:00.1''\<rparr>)]))\<lparr>ticks := 2\<rparr>"
  by (simp add: add_note_def load_notes_def ensure_file_exists_def example_world_def
      get_next_id_def Note_init_now save_notes_def NoteCategory_of_def NoteCategory_members_def
      NotePriority_of_def NotePriority_members_def lower_def lower_char_def milk_note_def
      example_clock_values numeral_2_eq_2)

lemma milk_archive:
  "snd (run (Archive 1)
     ((example_world (JSONArray [to_dict (milk_note\<lparr>status := ACTIVE,
         updated_at := ''2024-01-01T10:00:00.1''\<rparr>)]))\<lparr>ticks := 2\<rparr>))
   = (example_world (JSONArray [to_dict milk_note]))\<lparr>ticks := 3\<rparr>"
proof -
  let ?n = "milk_note\<lparr>status := ACTIVE, updated_at := ''2024-01-01T10:00:00.1''\<rparr>"
  let ?w = "(example_world (JSONArray [to_dict ?n]))\<lparr>ticks := 2\<rparr>"
  have "load_notes ?w = (Inr [?n], ?w)"
    by (rule load_notes_JSONArray)
       (simp_all add: example_world_def has_timestamps_def milk_note_def)
  then show ?thesis
    by (simp add: archive_note_def now_def save_notes_def ensure_file_exists_def
        example_world_def milk_note_def example_clock_values numeral_2_eq_2 numeral_3_eq_3)
qed

lemma milk_collection:
  "collection (run_all milk_commands (example_world Absent)) = [milk_note]"
proof -
  let ?w = "(example_world (JSONArray [to_dict milk_note]))\<lparr>ticks := 3\<rparr>"
  have "load_notes ?w = (Inr [milk_note], ?w)"
    by (rule load_notes_JSONArray)
       (simp_all add: example_world_def has_timestamps_def milk_note_def)
  then show ?thesis
    by (simp add: milk_commands_def milk_add milk_archive collection_def del: run.simps)
qed

theorem created_at_before_updated_at_witness:
  "mono (clock (example_world Absent))
   \<and> (\<forall>k. clock (example_world Absent) k \<noteq> [])
   \<and> store_ok (example_world Absent)
   \<and> collection (run_all milk_commands (example_world Absent)) = [milk_note]
   \<and> created_at milk_note \<le> updated_at milk_note
   \<and> created_at milk_note \<noteq> updated_at milk_note"
proof -
  have m: "mono (clock (example_world Absent))"
    by (simp add: example_world_sel example_clock_mono)
  have n: "\<forall>k. clock (example_world Absent) k \<noteq> []"
    by (simp add: example_world_sel example_clock_nonempty)
  have d: "created_at milk_note \<noteq> updated_at milk_note"
    by (simp add: milk_note_def)
  from created_at_before_updated_at [OF m n example_store_ok, of milk_commands] m n d
  show ?thesis
    by (simp add: milk_collection example_store_ok)
qed

end
